theory Spec2Isabelle
  imports Main
begin

section \<open>Eager execution of a single operator: \<open>DirectOperator\<close>\<close>

text \<open>
  A shallow embedding of \<^verbatim>\<open>dali/pipeline/operator/direct_operator.h\<close>: the two
  \<^verbatim>\<open>AsTensorList\<close> overloads, the constructor, the three \<^verbatim>\<open>Run\<close> overloads with their
  explicit specialisations, \<^verbatim>\<open>RunImpl\<close>, and the two static setters.

  The header only uses its collaborators (batch containers, workspace, operator, schema,
  thread pool, stream pool); their declarations live in other headers.  They are modelled
  below, each under a comment that says what is modelled and from where.
\<close>

subsection \<open>Backends and failures\<close>

datatype Backend = CPUBackend | GPUBackend | MixedBackend

text \<open>
  Every way in which a call can leave the normal control flow is a value:
  \<^item> \<open>DALI_FAIL msg\<close>: the macro \<^verbatim>\<open>DALI_FAIL(msg)\<close> of the primary \<^verbatim>\<open>Run\<close> templates;
  \<^item> \<open>CUDA_CALL_failed code\<close>: \<^verbatim>\<open>CUDA_CALL\<close> around a runtime call that returned \<open>code \<noteq> 0\<close>;
  \<^item> \<open>Thrown msg\<close>: an exception raised inside a collaborator (operator, schema, factory);
  \<^item> \<open>Workspace_index i\<close>: the workspace was asked for an output it does not hold;
  \<^item> \<open>Bad_pointer p\<close>: a handle that does not point to a live batch of the expected kind
    was dereferenced (undefined behaviour in C++);
  \<^item> \<open>Bad_buffer\<close>: sample data was read outside allocated storage (undefined behaviour
    in C++);
  \<^item> \<open>OutputDesc_index i\<close>: \<^verbatim>\<open>output_desc[i]\<close> was read past the end of the vector
    (undefined behaviour in C++: \<^verbatim>\<open>operator[]\<close> does not check).
\<close>

datatype error =
    DALI_FAIL string
  | CUDA_CALL_failed nat
  | Thrown string
  | Workspace_index nat
  | Bad_pointer nat
  | Bad_buffer
  | OutputDesc_index nat

subsection \<open>Batch containers and the heap\<close>

type_synonym addr = nat
type_synonym TensorShape = "nat list"
type_synonym TensorLayout = string
type_synonym DALIDataType = int
type_synonym cudaStream_t = nat

text \<open>
  Modelled from the spec: the two batch containers of \<^verbatim>\<open>tensor_list.h\<close> and
  \<^verbatim>\<open>tensor_vector.h\<close>, which are not part of the source at hand.  A dense batch
  (\<open>TensorList\<close>) is one contiguous buffer holding the samples back to back; a per-sample
  batch (\<open>TensorVector\<close>) is a sequence of tensors, each a view (buffer, offset, shape).
  Buffers are identified by their address in \<open>bufs\<close>, batch objects by their address in
  \<open>objs\<close>; a \<^verbatim>\<open>std::shared_ptr\<close> to a batch is such an address.
\<close>

record Tensor =
  t_buf :: "addr option"
  t_off :: nat
  t_shape :: TensorShape

record TensorList =
  tl_buf :: "addr option"
  tl_shape :: "TensorShape list"
  tl_type :: DALIDataType
  tl_layout :: TensorLayout

record TensorVector =
  tv_tensors :: "Tensor list"
  tv_type :: DALIDataType
  tv_layout :: TensorLayout

datatype batch = Dense TensorList | PerSample TensorVector

datatype container = TensorList_t | TensorVector_t

record heap =
  objs :: "batch list"
  bufs :: "int list list"

definition make_shared :: "heap \<Rightarrow> batch \<Rightarrow> addr \<times> heap" where
  "make_shared m b = (length (objs m), m\<lparr>objs := objs m @ [b]\<rparr>)"

definition deref :: "heap \<Rightarrow> addr \<Rightarrow> batch option" where
  "deref m p = (if p < length (objs m) then Some (objs m ! p) else None)"

definition assign :: "heap \<Rightarrow> addr \<Rightarrow> batch \<Rightarrow> heap" where
  "assign m p b = m\<lparr>objs := (objs m)[p := b]\<rparr>"

definition new_buffer :: "heap \<Rightarrow> int list \<Rightarrow> addr \<times> heap" where
  "new_buffer m xs = (length (bufs m), m\<lparr>bufs := bufs m @ [xs]\<rparr>)"

definition buffer :: "heap \<Rightarrow> addr option \<Rightarrow> int list" where
  "buffer m b = (case b of None \<Rightarrow> []
                 | Some a \<Rightarrow> if a < length (bufs m) then bufs m ! a else [])"

definition volume :: "TensorShape \<Rightarrow> nat" where
  "volume s = prod_list s"

text \<open>The element values of one sample, for either representation.\<close>

definition tensor_values :: "heap \<Rightarrow> Tensor \<Rightarrow> int list" where
  "tensor_values m t = take (volume (t_shape t)) (drop (t_off t) (buffer m (t_buf t)))"

definition sample_offset :: "TensorShape list \<Rightarrow> nat \<Rightarrow> nat" where
  "sample_offset shp i = sum_list (map volume (take i shp))"

definition tl_sample :: "heap \<Rightarrow> TensorList \<Rightarrow> nat \<Rightarrow> int list" where
  "tl_sample m tlist i =
     take (volume (tl_shape tlist ! i)) (drop (sample_offset (tl_shape tlist) i) (buffer m (tl_buf tlist)))"

text \<open>The buffers a batch refers to: its storage identity.\<close>

definition storage :: "batch \<Rightarrow> addr set" where
  "storage b = (case b of Dense tlist \<Rightarrow> set_option (tl_buf tlist)
                | PerSample tvec \<Rightarrow> (\<Union>t \<in> set (tv_tensors tvec). set_option (t_buf t)))"

definition GetLayout :: "batch \<Rightarrow> TensorLayout" where
  "GetLayout b = (case b of Dense tlist \<Rightarrow> tl_layout tlist | PerSample tvec \<Rightarrow> tv_layout tvec)"

definition SetLayout :: "batch \<Rightarrow> TensorLayout \<Rightarrow> batch" where
  "SetLayout b l = (case b of Dense tlist \<Rightarrow> Dense (tlist\<lparr>tl_layout := l\<rparr>)
                    | PerSample tvec \<Rightarrow> PerSample (tvec\<lparr>tv_layout := l\<rparr>))"

definition shape :: "batch \<Rightarrow> TensorShape list" where
  "shape b = (case b of Dense tlist \<Rightarrow> tl_shape tlist | PerSample tvec \<Rightarrow> map t_shape (tv_tensors tvec))"

definition dtype :: "batch \<Rightarrow> DALIDataType" where
  "dtype b = (case b of Dense tlist \<Rightarrow> tl_type tlist | PerSample tvec \<Rightarrow> tv_type tvec)"

text \<open>\<^verbatim>\<open>shape().sample_dim()\<close>: the rank shared by the samples of a batch.\<close>

definition sample_dim :: "TensorShape list \<Rightarrow> nat" where
  "sample_dim shp = (case shp of [] \<Rightarrow> 0 | s # _ \<Rightarrow> length s)"

text \<open>
  Modelled from the spec: the default constructors (an empty batch without storage) and
  the constructors taking a batch size (one empty sample per slot of the batch).
\<close>

definition DALI_NO_TYPE :: DALIDataType where
  "DALI_NO_TYPE = - 1"

definition empty_batch :: "container \<Rightarrow> batch" where
  "empty_batch c = (case c of
       TensorList_t \<Rightarrow> Dense \<lparr>tl_buf = None, tl_shape = [], tl_type = DALI_NO_TYPE, tl_layout = []\<rparr>
     | TensorVector_t \<Rightarrow> PerSample \<lparr>tv_tensors = [], tv_type = DALI_NO_TYPE, tv_layout = []\<rparr>)"

definition sized_batch :: "container \<Rightarrow> int \<Rightarrow> batch" where
  "sized_batch c n = (case c of
       TensorList_t \<Rightarrow>
         Dense \<lparr>tl_buf = None, tl_shape = replicate (nat n) [0], tl_type = DALI_NO_TYPE,
                tl_layout = []\<rparr>
     | TensorVector_t \<Rightarrow>
         PerSample \<lparr>tv_tensors = replicate (nat n) \<lparr>t_buf = None, t_off = 0, t_shape = [0]\<rparr>,
                    tv_type = DALI_NO_TYPE, tv_layout = []\<rparr>)"

text \<open>
  Modelled from the spec: \<^verbatim>\<open>ShareData\<close> makes the receiver a view of a dense source
  without copying: the same buffer, shapes, element type and layout tag.  A per-sample
  receiver gets one view per sample, at the sample's offset in the shared buffer.
\<close>

fun views :: "addr option \<Rightarrow> nat \<Rightarrow> TensorShape list \<Rightarrow> Tensor list" where
  "views b off [] = []"
| "views b off (s # ss) = \<lparr>t_buf = b, t_off = off, t_shape = s\<rparr> # views b (off + volume s) ss"

definition ShareData :: "batch \<Rightarrow> TensorList \<Rightarrow> batch" where
  "ShareData receiver src = (case receiver of
       Dense _ \<Rightarrow> Dense src
     | PerSample _ \<Rightarrow>
         PerSample \<lparr>tv_tensors = views (tl_buf src) 0 (tl_shape src), tv_type = tl_type src,
                    tv_layout = tl_layout src\<rparr>)"

text \<open>
  A sample can be read when its view lies inside an allocated buffer (a sample without
  storage can be read when it has no elements).
\<close>

definition readable :: "heap \<Rightarrow> Tensor \<Rightarrow> bool" where
  "readable m t = (case t_buf t of
       None \<Rightarrow> volume (t_shape t) = 0
     | Some a \<Rightarrow> a < length (bufs m) \<and> t_off t + volume (t_shape t) \<le> length (bufs m ! a))"

text \<open>
  Modelled from the spec: \<^verbatim>\<open>TensorList::Copy\<close> from a per-sample batch consolidates the
  per-sample buffers into one newly allocated contiguous buffer and takes over the shapes,
  the element type and the layout tag.  Reading a sample that cannot be read stops the
  model with \<open>Bad_buffer\<close>.
\<close>

definition Copy :: "heap \<Rightarrow> TensorVector \<Rightarrow> error + TensorList \<times> heap" where
  "Copy m src =
     (if list_all (readable m) (tv_tensors src) then
        (let (b, m') = new_buffer m (concat (map (tensor_values m) (tv_tensors src)))
         in Inr (\<lparr>tl_buf = Some b, tl_shape = map t_shape (tv_tensors src),
                  tl_type = tv_type src, tl_layout = tv_layout src\<rparr>, m'))
      else Inl Bad_buffer)"

text \<open>
  Modelled from the spec: \<^verbatim>\<open>Resize(shape, type)\<close> gives a batch the requested shape and
  element type in place and provides storage for it (zero-filled here): one buffer for a
  dense batch, one buffer per sample for a per-sample batch.
\<close>

fun fresh_tensors :: "heap \<Rightarrow> TensorShape list \<Rightarrow> Tensor list \<times> heap" where
  "fresh_tensors m [] = ([], m)"
| "fresh_tensors m (s # ss) =
     (let (b, m1) = new_buffer m (replicate (volume s) 0);
          (ts, m2) = fresh_tensors m1 ss
      in (\<lparr>t_buf = Some b, t_off = 0, t_shape = s\<rparr> # ts, m2))"

definition Resize :: "heap \<Rightarrow> batch \<Rightarrow> TensorShape list \<Rightarrow> DALIDataType \<Rightarrow> batch \<times> heap" where
  "Resize m b shp ty = (case b of
       Dense tlist \<Rightarrow>
         (let (a, m') = new_buffer m (replicate (sum_list (map volume shp)) 0)
          in (Dense (tlist\<lparr>tl_buf := Some a, tl_shape := shp, tl_type := ty\<rparr>), m'))
     | PerSample tvec \<Rightarrow>
         (let (ts, m') = fresh_tensors m shp
          in (PerSample (tvec\<lparr>tv_tensors := ts, tv_type := ty\<rparr>), m')))"

subsection \<open>The representation bridge: \<open>AsTensorList\<close>\<close>

text \<open>
  The overload for a handle to a dense batch: \<^verbatim>\<open>return input;\<close>.  The heap is threaded
  through so that both overloads have the same shape; this one does not touch it.
\<close>

definition AsTensorList_TensorList :: "heap \<Rightarrow> addr \<Rightarrow> error + addr \<times> heap" where
  "AsTensorList_TensorList m input = Inr (input, m)"

text \<open>
  The overload for a handle to a per-sample batch: a default-constructed dense batch is
  allocated, the input is copied into it, and the new handle is returned.
\<close>

definition AsTensorList_TensorVector :: "heap \<Rightarrow> addr \<Rightarrow> error + addr \<times> heap" where
  "AsTensorList_TensorVector m input =
     (let (tlist, m1) = make_shared m (empty_batch TensorList_t)
      in case deref m1 input of
           Some (PerSample src) \<Rightarrow>
             (case Copy m1 src of
                Inl e \<Rightarrow> Inl e
              | Inr (copy, m2) \<Rightarrow> Inr (tlist, assign m2 tlist (Dense copy)))
         | _ \<Rightarrow> Inl (Bad_pointer input))"

definition AsTensorList :: "container \<Rightarrow> heap \<Rightarrow> addr \<Rightarrow> error + addr \<times> heap" where
  "AsTensorList c = (case c of TensorList_t \<Rightarrow> AsTensorList_TensorList
                     | TensorVector_t \<Rightarrow> AsTensorList_TensorVector)"

subsection \<open>Collaborators of the engine\<close>

text \<open>
  Modelled from the spec: a worker pool is built from a thread count, a device and an
  affinity flag (\<^verbatim>\<open>thread_pool.h\<close> is not part of the source at hand).  A
  \<^verbatim>\<open>ThreadPool *\<close> is \<open>Some pool\<close>, or \<open>None\<close> for the null pointer.
\<close>

record ThreadPool =
  num_threads :: int
  device_id :: int
  set_affinity :: bool

text \<open>Modelled from the spec: an output descriptor is a shape and an element type.\<close>

record OutputDesc =
  desc_shape :: "TensorShape list"
  desc_type :: DALIDataType

text \<open>
  Modelled from the spec: the workspace (\<^verbatim>\<open>workspace.h\<close> is not part of the source at
  hand) holds handles to the input batches, the output slots and the named argument
  inputs, the bound worker pool or compute stream, and the batch size.  \<^verbatim>\<open>Clear\<close>
  resets it.
\<close>

record workspace =
  ws_inputs :: "addr list"
  ws_outputs :: "addr list"
  ws_argument_inputs :: "string \<rightharpoonup> addr"
  ws_thread_pool :: "ThreadPool option"
  ws_stream :: "cudaStream_t option"
  ws_batch_sizes :: "int option"

definition empty_workspace :: workspace where
  "empty_workspace = \<lparr>ws_inputs = [], ws_outputs = [], ws_argument_inputs = Map.empty,
                       ws_thread_pool = None, ws_stream = None, ws_batch_sizes = None\<rparr>"

definition Clear :: "workspace \<Rightarrow> workspace" where
  "Clear w = empty_workspace"

text \<open>
  Modelled from the spec: an operator is a stateful object with three entry points.
  \<open>op_Setup\<close> reads the workspace and yields either an exception or the flag it returns
  together with the descriptors it left in \<^verbatim>\<open>output_desc\<close>; \<open>op_CanInferOutputs\<close> is a
  query; \<open>op_Run\<close> may change the workspace and the memory and may raise an exception.
  All three are arbitrary functions: nothing is assumed about a concrete operator.
\<close>

record 's OperatorBase =
  op_state :: 's
  op_Setup :: "'s \<Rightarrow> workspace \<Rightarrow> heap \<Rightarrow> (string + bool \<times> OutputDesc list) \<times> 's"
  op_CanInferOutputs :: "'s \<Rightarrow> bool"
  op_Run :: "'s \<Rightarrow> workspace \<Rightarrow> heap \<Rightarrow> string option \<times> workspace \<times> heap \<times> 's"

text \<open>
  Modelled from the spec: the schema gives the declared number of outputs and the default
  layout of an input, looked up by input index and sample rank (the third argument is the
  layout the input has so far); the lookup may raise.  The operator descriptor gives its
  integer arguments by name and its schema.
\<close>

record OpSchema =
  NumOutput :: nat
  GetInputLayout :: "nat \<Rightarrow> nat \<Rightarrow> TensorLayout \<Rightarrow> string + TensorLayout"

record OpSpec =
  GetArgument :: "string \<Rightarrow> string + int"
  GetSchema :: OpSchema

subsection \<open>The engine instance and the state it runs against\<close>

text \<open>
  The members of \<^verbatim>\<open>DirectOperator<Backend>\<close>, in declaration order; the template
  parameter is the field \<open>backend\<close>.
\<close>

record 's DirectOperator =
  backend :: Backend
  batch_size :: int
  num_outputs :: nat
  ws :: workspace
  op_spec :: OpSpec
  op :: "'s OperatorBase"

text \<open>
  The calls the engine makes on its collaborators are recorded in program order.
\<close>

datatype call =
    Call_Clear
  | Call_SetThreadPool "ThreadPool option"
  | Call_set_stream cudaStream_t
  | Call_cudaStreamSynchronize cudaStream_t
  | Call_AddInput addr
  | Call_AddArgumentInput string addr
  | Call_AddOutput addr
  | Call_SetBatchSizes int
  | Call_Setup
  | Call_Resize nat "TensorShape list" DALIDataType
  | Call_Run

text \<open>
  A call runs against the engine instance, the memory, the device and the call record.
  \<open>cuda_results\<close> lists the return codes of the CUDA runtime calls still to come (\<open>0\<close>
  is \<^verbatim>\<open>cudaSuccess\<close>; when the list is exhausted every call succeeds), so that a device
  fault at any point is an input of the model.
\<close>

record 's machine = "'s DirectOperator" +
  mem :: heap
  cuda_results :: "nat list"
  calls :: "call list"

text \<open>
  The static members, one pair per instantiation \<^verbatim>\<open>DirectOperator<Backend>\<close> (a static
  data member of a class template exists once per specialisation), and the process-wide
  stream pool.
\<close>

record 'p statics =
  shared_thread_pool :: "Backend \<Rightarrow> ThreadPool"
  shared_cuda_stream :: "Backend \<Rightarrow> cudaStream_t"
  stream_pool :: 'p

text \<open>The initialisers at the end of the header.\<close>

definition initial_statics :: "'p \<Rightarrow> 'p statics" where
  "initial_statics pool =
     \<lparr>shared_thread_pool = (\<lambda>_. \<lparr>num_threads = 1, device_id = 0, set_affinity = False\<rparr>),
      shared_cuda_stream = (\<lambda>_. 0), stream_pool = pool\<rparr>"

subsection \<open>Construction and the static setters\<close>

text \<open>
  The constructor initialises the members in declaration order: the batch size from the
  argument \<^verbatim>\<open>max_batch_size\<close>, the output count from the schema, a default workspace, a
  copy of the descriptor, and the operator from the factory \<^verbatim>\<open>InstantiateOperator\<close>
  (a parameter here).  An exception of a collaborator leaves no instance.
\<close>

definition DirectOperator_new ::
  "Backend \<Rightarrow> (OpSpec \<Rightarrow> string + 's OperatorBase) \<Rightarrow> OpSpec \<Rightarrow> error + 's DirectOperator" where
  "DirectOperator_new B InstantiateOperator spec =
     (case GetArgument spec ''max_batch_size'' of
        Inl msg \<Rightarrow> Inl (Thrown msg)
      | Inr n \<Rightarrow>
          (case InstantiateOperator spec of
             Inl msg \<Rightarrow> Inl (Thrown msg)
           | Inr operator \<Rightarrow>
               Inr \<lparr>backend = B, batch_size = n, num_outputs = NumOutput (GetSchema spec),
                    ws = empty_workspace, op_spec = spec, op = operator\<rparr>))"

definition SetThreadPool :: "Backend \<Rightarrow> int \<Rightarrow> int \<Rightarrow> bool \<Rightarrow> 'p statics \<Rightarrow> 'p statics" where
  "SetThreadPool B n dev aff g =
     g\<lparr>shared_thread_pool := (shared_thread_pool g)
          (B := \<lparr>num_threads = n, device_id = dev, set_affinity = aff\<rparr>)\<rparr>"

text \<open>
  \<^verbatim>\<open>CPU_ONLY_DEVICE_ID\<close> and \<^verbatim>\<open>CUDAStreamPool::instance().Get\<close> are declared in other
  headers and are parameters here; the pool has a state of its own.  The device guard
  restores the current device on scope exit and leaves no trace in this state.
\<close>

definition SetCudaStream ::
  "int \<Rightarrow> ('p \<Rightarrow> int \<Rightarrow> cudaStream_t \<times> 'p) \<Rightarrow> Backend \<Rightarrow> int \<Rightarrow> 'p statics \<Rightarrow> 'p statics" where
  "SetCudaStream CPU_ONLY_DEVICE_ID Get B dev g =
     (if dev \<noteq> CPU_ONLY_DEVICE_ID then
        (let (stream, pool') = Get (stream_pool g) dev
         in g\<lparr>shared_cuda_stream := (shared_cuda_stream g)(B := stream), stream_pool := pool'\<rparr>)
      else g)"

subsection \<open>Sequencing\<close>

text \<open>
  A step either fails or yields a value, and in both cases leaves a state behind: the
  state at the point where the exception was raised, or the state after the step.
\<close>

definition and_then ::
  "('st \<Rightarrow> (error + 'a) \<times> 'st) \<Rightarrow> ('a \<Rightarrow> 'st \<Rightarrow> (error + 'b) \<times> 'st) \<Rightarrow> 'st
     \<Rightarrow> (error + 'b) \<times> 'st" where
  "and_then step rest s = (case step s of (Inl e, s') \<Rightarrow> (Inl e, s') | (Inr a, s') \<Rightarrow> rest a s')"

text \<open>A \<^verbatim>\<open>for\<close> loop over the given indices or elements; an exception leaves the loop.\<close>

primrec for_each ::
  "'a list \<Rightarrow> ('a \<Rightarrow> 'st \<Rightarrow> (error + unit) \<times> 'st) \<Rightarrow> 'st \<Rightarrow> (error + unit) \<times> 'st" where
  "for_each [] body s = (Inr (), s)"
| "for_each (x # xs) body s =
     (case body x s of (Inl e, s') \<Rightarrow> (Inl e, s') | (Inr _, s') \<Rightarrow> for_each xs body s')"

definition record_call :: "call \<Rightarrow> 's machine \<Rightarrow> 's machine" where
  "record_call c s = s\<lparr>calls := calls s @ [c]\<rparr>"

subsection \<open>The steps of a call\<close>

definition ws_Clear :: "'s machine \<Rightarrow> 's machine" where
  "ws_Clear s = record_call Call_Clear (s\<lparr>ws := Clear (ws s)\<rparr>)"

definition ws_SetThreadPool :: "ThreadPool option \<Rightarrow> 's machine \<Rightarrow> 's machine" where
  "ws_SetThreadPool tp s =
     record_call (Call_SetThreadPool tp) (s\<lparr>ws := (ws s)\<lparr>ws_thread_pool := tp\<rparr>\<rparr>)"

definition ws_set_stream :: "cudaStream_t \<Rightarrow> 's machine \<Rightarrow> 's machine" where
  "ws_set_stream stream s =
     record_call (Call_set_stream stream) (s\<lparr>ws := (ws s)\<lparr>ws_stream := Some stream\<rparr>\<rparr>)"

text \<open>\<^verbatim>\<open>CUDA_CALL(cudaStreamSynchronize(stream))\<close>: raises when the runtime reports a fault.\<close>

definition cudaStreamSynchronize :: "cudaStream_t \<Rightarrow> 's machine \<Rightarrow> (error + unit) \<times> 's machine" where
  "cudaStreamSynchronize stream s =
     (let s1 = record_call (Call_cudaStreamSynchronize stream) s
      in case cuda_results s1 of
           [] \<Rightarrow> (Inr (), s1)
         | r # rs \<Rightarrow> (if r = 0 then Inr () else Inl (CUDA_CALL_failed r), s1\<lparr>cuda_results := rs\<rparr>))"

text \<open>
  The body of the first loop of \<^verbatim>\<open>RunImpl\<close>.  The wrapper \<open>tensor_in\<close> is built, made a
  view of the input, given the default layout if it has none, and handed to the
  workspace; the wrapper is placed in the heap when it is complete (it is newly allocated
  and reachable from nowhere else before \<^verbatim>\<open>AddInput\<close>, and an exception on the way
  destroys it).
\<close>

definition input_layout_default :: "OpSchema \<Rightarrow> nat \<Rightarrow> batch \<Rightarrow> error + batch" where
  "input_layout_default schema in_idx tensor_in =
     (if GetLayout tensor_in = [] then
        (case GetInputLayout schema in_idx (sample_dim (shape tensor_in)) (GetLayout tensor_in) of
           Inl msg \<Rightarrow> Inl (Thrown msg)
         | Inr default_layout \<Rightarrow>
             Inr (if default_layout \<noteq> [] then SetLayout tensor_in default_layout else tensor_in))
      else Inr tensor_in)"

definition AddInput :: "container \<Rightarrow> nat \<Rightarrow> addr \<Rightarrow> 's machine \<Rightarrow> (error + unit) \<times> 's machine" where
  "AddInput WSInputType in_idx input s =
     (case deref (mem s) input of
        Some (Dense src) \<Rightarrow>
          (case input_layout_default (GetSchema (op_spec s)) in_idx
                  (ShareData (empty_batch WSInputType) src) of
             Inl e \<Rightarrow> (Inl e, s)
           | Inr tensor_in \<Rightarrow>
               (let (p, m') = make_shared (mem s) tensor_in
                in (Inr (), record_call (Call_AddInput p)
                      (s\<lparr>mem := m', ws := (ws s)\<lparr>ws_inputs := ws_inputs (ws s) @ [p]\<rparr>\<rparr>))))
      | _ \<Rightarrow> (Inl (Bad_pointer input), s))"

definition AddArgumentInput :: "string \<times> addr \<Rightarrow> 's machine \<Rightarrow> (error + unit) \<times> 's machine" where
  "AddArgumentInput arg s =
     (Inr (), record_call (Call_AddArgumentInput (fst arg) (snd arg))
        (s\<lparr>ws := (ws s)\<lparr>ws_argument_inputs := (ws_argument_inputs (ws s))(fst arg \<mapsto> snd arg)\<rparr>\<rparr>))"

definition AddOutput :: "container \<Rightarrow> nat \<Rightarrow> 's machine \<Rightarrow> (error + unit) \<times> 's machine" where
  "AddOutput WSOutputType i s =
     (let (p, m') = make_shared (mem s) (sized_batch WSOutputType (batch_size s))
      in (Inr (), record_call (Call_AddOutput p)
            (s\<lparr>mem := m', ws := (ws s)\<lparr>ws_outputs := ws_outputs (ws s) @ [p]\<rparr>\<rparr>)))"

definition SetBatchSizes :: "'s machine \<Rightarrow> (error + unit) \<times> 's machine" where
  "SetBatchSizes s =
     (Inr (), record_call (Call_SetBatchSizes (batch_size s))
        (s\<lparr>ws := (ws s)\<lparr>ws_batch_sizes := Some (batch_size s)\<rparr>\<rparr>))"

text \<open>\<^verbatim>\<open>ws.OutputPtr(i)\<close> and \<^verbatim>\<open>ws.Output(i)\<close>: the workspace checks the index.\<close>

definition OutputPtr :: "workspace \<Rightarrow> nat \<Rightarrow> addr option" where
  "OutputPtr w i = (if i < length (ws_outputs w) then Some (ws_outputs w ! i) else None)"

text \<open>
  One iteration of the resize loop:
  \<^verbatim>\<open>ws.Output(i).Resize(output_desc[i].shape, output_desc[i].type)\<close>.
  The read \<^verbatim>\<open>output_desc[i]\<close> is unchecked in the source; past the end of the vector the
  model stops with \<open>OutputDesc_index i\<close>.
\<close>

definition Resize_output :: "OutputDesc list \<Rightarrow> nat \<Rightarrow> 's machine \<Rightarrow> (error + unit) \<times> 's machine" where
  "Resize_output output_desc i s =
     (case OutputPtr (ws s) i of
        None \<Rightarrow> (Inl (Workspace_index i), s)
      | Some p \<Rightarrow>
          (case deref (mem s) p of
             None \<Rightarrow> (Inl (Bad_pointer p), s)
           | Some b \<Rightarrow>
               if i < length output_desc then
                 (let (b', m') = Resize (mem s) b (desc_shape (output_desc ! i))
                                   (desc_type (output_desc ! i))
                  in (Inr (), record_call
                        (Call_Resize i (desc_shape (output_desc ! i)) (desc_type (output_desc ! i)))
                        (s\<lparr>mem := assign m' p b'\<rparr>)))
               else (Inl (OutputDesc_index i), s)))"

text \<open>
  \<^verbatim>\<open>if (op->Setup(output_desc, ws) && op->CanInferOutputs()) { for ... Resize ... }\<close>
\<close>

definition Setup_outputs :: "'s machine \<Rightarrow> (error + unit) \<times> 's machine" where
  "Setup_outputs s =
     (case op_Setup (op s) (op_state (op s)) (ws s) (mem s) of
        (Inl msg, st) \<Rightarrow>
          (Inl (Thrown msg), record_call Call_Setup (s\<lparr>op := (op s)\<lparr>op_state := st\<rparr>\<rparr>))
      | (Inr (ok, output_desc), st) \<Rightarrow>
          (let s1 = record_call Call_Setup (s\<lparr>op := (op s)\<lparr>op_state := st\<rparr>\<rparr>)
           in if ok \<and> op_CanInferOutputs (op s) st
              then for_each [0..<num_outputs s] (Resize_output output_desc) s1
              else (Inr (), s1)))"

text \<open>\<^verbatim>\<open>op->Run(ws)\<close>\<close>

definition Run_operator :: "'s machine \<Rightarrow> (error + unit) \<times> 's machine" where
  "Run_operator s =
     (case op_Run (op s) (op_state (op s)) (ws s) (mem s) of
        (r, w, m, st) \<Rightarrow>
          (case r of Some msg \<Rightarrow> Inl (Thrown msg) | None \<Rightarrow> Inr (),
           record_call Call_Run (s\<lparr>ws := w, mem := m, op := (op s)\<lparr>op_state := st\<rparr>\<rparr>)))"

text \<open>
  The last loop:
  \<^verbatim>\<open>outputs.push_back(AsTensorList<OutBackend>(ws.template OutputPtr<OutBackend>(i)))\<close>.
\<close>

primrec collect_outputs ::
  "container \<Rightarrow> nat list \<Rightarrow> addr list \<Rightarrow> 's machine \<Rightarrow> (error + addr list) \<times> 's machine" where
  "collect_outputs WSOutputType [] outputs s = (Inr outputs, s)"
| "collect_outputs WSOutputType (i # is) outputs s =
     (case OutputPtr (ws s) i of
        None \<Rightarrow> (Inl (Workspace_index i), s)
      | Some p \<Rightarrow>
          (case AsTensorList WSOutputType (mem s) p of
             Inl e \<Rightarrow> (Inl e, s)
           | Inr (q, m') \<Rightarrow> collect_outputs WSOutputType is (outputs @ [q]) (s\<lparr>mem := m'\<rparr>)))"

subsection \<open>\<open>RunImpl\<close> and the \<open>Run\<close> overloads\<close>

text \<open>
  The first part of \<^verbatim>\<open>RunImpl\<close>, up to \<^verbatim>\<open>ws.SetBatchSizes(batch_size)\<close>: the inputs, the
  argument inputs and the output slots are placed in the workspace.
\<close>

definition populate ::
  "container \<Rightarrow> container \<Rightarrow> addr list \<Rightarrow> (string \<times> addr) list \<Rightarrow> 's machine
     \<Rightarrow> (error + unit) \<times> 's machine" where
  "populate WSInputType WSOutputType inputs kwargs s =
     and_then (for_each [0..<length inputs]
                 (\<lambda>in_idx. AddInput WSInputType in_idx (inputs ! in_idx)))
       (\<lambda>_. and_then (for_each kwargs AddArgumentInput)
       (\<lambda>_. and_then (for_each [0..<num_outputs s] (AddOutput WSOutputType))
       (\<lambda>_. SetBatchSizes))) s"

text \<open>The rest of \<^verbatim>\<open>RunImpl\<close>: set up the outputs, run the operator, hand out the outputs.\<close>

definition RunImpl ::
  "container \<Rightarrow> container \<Rightarrow> addr list \<Rightarrow> (string \<times> addr) list \<Rightarrow> 's machine
     \<Rightarrow> (error + addr list) \<times> 's machine" where
  "RunImpl WSInputType WSOutputType inputs kwargs s =
     and_then (populate WSInputType WSOutputType inputs kwargs)
       (\<lambda>_. and_then Setup_outputs
       (\<lambda>_. and_then Run_operator
       (\<lambda>_. collect_outputs WSOutputType [0..<num_outputs s] []))) s"

text \<open>
  The overload taking a worker pool.  The only explicit specialisation is
  \<^verbatim>\<open>DirectOperator<CPUBackend>::Run<CPUBackend, CPUBackend>\<close>; every other instantiation
  is the primary template, whose body is \<^verbatim>\<open>DALI_FAIL\<close>.
\<close>

definition Run_ThreadPool ::
  "Backend \<Rightarrow> Backend \<Rightarrow> addr list \<Rightarrow> (string \<times> addr) list \<Rightarrow> ThreadPool option \<Rightarrow> 's machine
     \<Rightarrow> (error + addr list) \<times> 's machine" where
  "Run_ThreadPool InBackend OutBackend inputs kwargs thread_pool s =
     (if backend s = CPUBackend \<and> InBackend = CPUBackend \<and> OutBackend = CPUBackend then
        RunImpl TensorVector_t TensorVector_t inputs kwargs
          (ws_SetThreadPool thread_pool (ws_Clear s))
      else (Inl (DALI_FAIL ''Unsupported backends in DirectOperator.Run() with thread pool.''), s))"

text \<open>
  The overload taking a compute stream, specialised for
  \<^verbatim>\<open>DirectOperator<GPUBackend>::Run<GPUBackend, GPUBackend>\<close> and
  \<^verbatim>\<open>DirectOperator<MixedBackend>::Run<CPUBackend, GPUBackend>\<close>.  The two bodies differ
  in the container types handed to \<^verbatim>\<open>RunImpl\<close> only; \<open>Run_synchronized\<close> is that body:
  clear, bind the stream, synchronise, \<^verbatim>\<open>RunImpl\<close>, synchronise, return.  An exception
  leaves it at once, as no handler is installed.
\<close>

definition Run_synchronized ::
  "container \<Rightarrow> container \<Rightarrow> addr list \<Rightarrow> (string \<times> addr) list \<Rightarrow> cudaStream_t \<Rightarrow> 's machine
     \<Rightarrow> (error + addr list) \<times> 's machine" where
  "Run_synchronized WSInputType WSOutputType inputs kwargs cuda_stream s =
     and_then (cudaStreamSynchronize cuda_stream)
       (\<lambda>_. and_then (RunImpl WSInputType WSOutputType inputs kwargs)
       (\<lambda>output. and_then (cudaStreamSynchronize cuda_stream)
       (\<lambda>_ s'. (Inr output, s'))))
       (ws_set_stream cuda_stream (ws_Clear s))"

definition Run_cudaStream ::
  "Backend \<Rightarrow> Backend \<Rightarrow> addr list \<Rightarrow> (string \<times> addr) list \<Rightarrow> cudaStream_t \<Rightarrow> 's machine
     \<Rightarrow> (error + addr list) \<times> 's machine" where
  "Run_cudaStream InBackend OutBackend inputs kwargs cuda_stream s =
     (if backend s = GPUBackend \<and> InBackend = GPUBackend \<and> OutBackend = GPUBackend then
        Run_synchronized TensorList_t TensorList_t inputs kwargs cuda_stream s
      else if backend s = MixedBackend \<and> InBackend = CPUBackend \<and> OutBackend = GPUBackend then
        Run_synchronized TensorVector_t TensorList_t inputs kwargs cuda_stream s
      else (Inl (DALI_FAIL ''Unsupported backends in DirectOperator.Run() with CUDA stream''), s))"

text \<open>
  The overload without a binding, specialised for the same three instantiations: each
  forwards to the explicit overload with the static default of its own class.
\<close>

definition Run ::
  "'p statics \<Rightarrow> Backend \<Rightarrow> Backend \<Rightarrow> addr list \<Rightarrow> (string \<times> addr) list \<Rightarrow> 's machine
     \<Rightarrow> (error + addr list) \<times> 's machine" where
  "Run g InBackend OutBackend inputs kwargs s =
     (if backend s = CPUBackend \<and> InBackend = CPUBackend \<and> OutBackend = CPUBackend then
        Run_ThreadPool CPUBackend CPUBackend inputs kwargs
          (Some (shared_thread_pool g CPUBackend)) s
      else if backend s = GPUBackend \<and> InBackend = GPUBackend \<and> OutBackend = GPUBackend then
        Run_cudaStream GPUBackend GPUBackend inputs kwargs (shared_cuda_stream g GPUBackend) s
      else if backend s = MixedBackend \<and> InBackend = CPUBackend \<and> OutBackend = GPUBackend then
        Run_cudaStream CPUBackend GPUBackend inputs kwargs (shared_cuda_stream g MixedBackend) s
      else (Inl (DALI_FAIL ''Unsupported backends in DirectOperator.Run().''), s))"

subsection \<open>A concrete operator: the increment scenario\<close>

text \<open>
  The scenario of the specification: an operator that adds one to every element, with one
  input and one output and a batch size of four, run on the batch \<open>{1, 2, 3, 4}\<close>.  It
  is the concrete input at which the theorems below are instantiated.
\<close>

definition samples :: "heap \<Rightarrow> batch \<Rightarrow> int list list" where
  "samples m b = (case b of
       Dense tlist \<Rightarrow> map (tl_sample m tlist) [0..<length (tl_shape tlist)]
     | PerSample tvec \<Rightarrow> map (tensor_values m) (tv_tensors tvec))"

fun write_tensors :: "heap \<Rightarrow> Tensor list \<Rightarrow> int list list \<Rightarrow> heap" where
  "write_tensors m (t # ts) (v # vs) =
     write_tensors (case t_buf t of None \<Rightarrow> m | Some a \<Rightarrow> m\<lparr>bufs := (bufs m)[a := v]\<rparr>) ts vs"
| "write_tensors m _ _ = m"

definition write_samples :: "heap \<Rightarrow> batch \<Rightarrow> int list list \<Rightarrow> heap" where
  "write_samples m b vs = (case b of
       Dense tlist \<Rightarrow>
         (case tl_buf tlist of None \<Rightarrow> m | Some a \<Rightarrow> m\<lparr>bufs := (bufs m)[a := concat vs]\<rparr>)
     | PerSample tvec \<Rightarrow> write_tensors m (tv_tensors tvec) vs)"

definition increment_Setup :: "unit \<Rightarrow> workspace \<Rightarrow> heap \<Rightarrow> (string + bool \<times> OutputDesc list) \<times> unit" where
  "increment_Setup st w m =
     (case ws_inputs w of
        [i] \<Rightarrow> (case deref m i of
                  Some b \<Rightarrow> Inr (True, [\<lparr>desc_shape = shape b, desc_type = dtype b\<rparr>])
                | None \<Rightarrow> Inl ''no input'')
      | _ \<Rightarrow> Inl ''one input expected'', st)"

definition increment_Run :: "unit \<Rightarrow> workspace \<Rightarrow> heap \<Rightarrow> string option \<times> workspace \<times> heap \<times> unit" where
  "increment_Run st w m =
     (case (ws_inputs w, ws_outputs w) of
        ([i], [out]) \<Rightarrow>
          (case (deref m i, deref m out) of
             (Some bi, Some bo) \<Rightarrow>
               (None, w, write_samples m bo (map (map (\<lambda>x. x + 1)) (samples m bi)), st)
           | _ \<Rightarrow> (Some ''dangling batch'', w, m, st))
      | _ \<Rightarrow> (Some ''one input and one output expected'', w, m, st))"

definition increment :: "unit OperatorBase" where
  "increment = \<lparr>op_state = (), op_Setup = increment_Setup, op_CanInferOutputs = (\<lambda>st. True),
                op_Run = increment_Run\<rparr>"

definition increment_spec :: OpSpec where
  "increment_spec =
     \<lparr>GetArgument = (\<lambda>n. if n = ''max_batch_size'' then Inr 4 else Inl ''no such argument''),
      GetSchema = \<lparr>NumOutput = 1,
                   GetInputLayout = (\<lambda>i r l. Inr (if i = 0 \<and> r = 1 then ''X'' else l))\<rparr>\<rparr>"

definition scenario_heap :: heap where
  "scenario_heap =
     \<lparr>objs = [Dense \<lparr>tl_buf = Some 0, tl_shape = [[1], [1], [1], [1]], tl_type = 4,
                      tl_layout = []\<rparr>],
      bufs = [[1, 2, 3, 4]]\<rparr>"

definition scenario :: "Backend \<Rightarrow> unit machine" where
  "scenario B =
     \<lparr>backend = B, batch_size = 4, num_outputs = 1, ws = empty_workspace,
      op_spec = increment_spec, op = increment, mem = scenario_heap, cuda_results = [],
      calls = []\<rparr>"

text \<open>A small per-sample batch: two samples in two buffers, the second one at an offset.\<close>

definition per_sample_example :: TensorVector where
  "per_sample_example =
     \<lparr>tv_tensors = [\<lparr>t_buf = Some 0, t_off = 0, t_shape = [2]\<rparr>,
                    \<lparr>t_buf = Some 1, t_off = 1, t_shape = [1]\<rparr>],
      tv_type = 4, tv_layout = ''X''\<rparr>"

definition per_sample_heap :: heap where
  "per_sample_heap = \<lparr>objs = [PerSample per_sample_example], bufs = [[10, 20], [0, 30]]\<rparr>"

text \<open>The same batch with a layout tag of its own.\<close>

definition tagged_heap :: heap where
  "tagged_heap =
     \<lparr>objs = [Dense \<lparr>tl_buf = Some 0, tl_shape = [[1], [1], [1], [1]], tl_type = 4,
                      tl_layout = ''N''\<rparr>],
      bufs = [[1, 2, 3, 4]]\<rparr>"


definition careless :: "unit OperatorBase" where
  "careless = increment\<lparr>op_Setup := (\<lambda>st w m. (Inr (True, []), st))\<rparr>"

subsection \<open>Notions used in the statements\<close>

text \<open>
  The streams synchronised by a sequence of calls, in order; what a call leaves fixed
  in the engine (its class, its configuration and the operator's entry points); and a
  step that stays inside the engine: it keeps the engine, performs no stream
  synchronisation and consumes no device result.
\<close>

fun sync_of :: "call \<Rightarrow> cudaStream_t list" where
  "sync_of (Call_cudaStreamSynchronize stream) = [stream]"
| "sync_of _ = []"

definition syncs :: "call list \<Rightarrow> cudaStream_t list" where
  "syncs cs = concat (map sync_of cs)"

definition same_engine :: "'s machine \<Rightarrow> 's machine \<Rightarrow> bool" where
  "same_engine s s' \<longleftrightarrow>
     backend s' = backend s \<and> batch_size s' = batch_size s \<and> num_outputs s' = num_outputs s \<and>
     op_spec s' = op_spec s \<and> op_Setup (op s') = op_Setup (op s) \<and>
     op_CanInferOutputs (op s') = op_CanInferOutputs (op s) \<and> op_Run (op s') = op_Run (op s)"

definition engine_step :: "'s machine \<Rightarrow> 's machine \<Rightarrow> bool" where
  "engine_step s s' \<longleftrightarrow>
     same_engine s s' \<and> cuda_results s' = cuda_results s \<and>
     (\<exists>cs. calls s' = calls s @ cs \<and> syncs cs = [])"

text \<open>
  A heap grows when objects and buffers are only added.  \<open>dense_copy m q p\<close> says that in
  the heap \<open>m\<close> the handle \<open>q\<close> points to a dense batch that is a copy of the per-sample
  batch at \<open>p\<close>: the same shapes and element type, storage of its own holding the sample
  values of \<open>p\<close> back to back.
\<close>

definition grows :: "heap \<Rightarrow> heap \<Rightarrow> bool" where
  "grows m m' \<longleftrightarrow> (\<exists>os bs. objs m' = objs m @ os \<and> bufs m' = bufs m @ bs)"

definition dense_copy :: "heap \<Rightarrow> addr \<Rightarrow> addr \<Rightarrow> bool" where
  "dense_copy m q p \<longleftrightarrow>
     (\<exists>src dst a. deref m p = Some (PerSample src) \<and> deref m q = Some (Dense dst)
        \<and> list_all (readable m) (tv_tensors src)
        \<and> tl_shape dst = map t_shape (tv_tensors src) \<and> tl_type dst = tv_type src
        \<and> tl_buf dst = Some a \<and> a < length (bufs m)
        \<and> bufs m ! a = concat (map (tensor_values m) (tv_tensors src)))"

text \<open>
  The calls of an accelerator or staged call that completes: the workspace is cleared and
  bound to the stream, the stream is synchronised, the workspace is populated, the outputs
  are set up (resize calls only between \<open>Setup\<close> and \<open>Run\<close>), the operator runs, and the
  stream is synchronised again.
\<close>

fun is_Resize :: "call \<Rightarrow> bool" where
  "is_Resize (Call_Resize i shp ty) = True"
| "is_Resize _ = False"

definition bracketed ::
  "cudaStream_t \<Rightarrow> addr list \<Rightarrow> (string \<times> addr) list \<Rightarrow> 's machine \<Rightarrow> 's machine \<Rightarrow> bool" where
  "bracketed stream inputs kwargs s s' \<longleftrightarrow>
     (\<exists>ins outs rs.
        calls s' = calls s @
          [Call_Clear, Call_set_stream stream, Call_cudaStreamSynchronize stream] @
          map Call_AddInput ins @
          map (\<lambda>a. Call_AddArgumentInput (fst a) (snd a)) kwargs @
          map Call_AddOutput outs @
          [Call_SetBatchSizes (batch_size s), Call_Setup] @ rs @
          [Call_Run, Call_cudaStreamSynchronize stream]
      \<and> length ins = length inputs \<and> length outs = num_outputs s \<and> list_all is_Resize rs)"

text \<open>The failure that stands for a read of \<^verbatim>\<open>output_desc\<close> past its end.\<close>

fun out_of_bounds :: "error + 'a \<Rightarrow> bool" where
  "out_of_bounds (Inl (OutputDesc_index i)) = True"
| "out_of_bounds _ = False"

section \<open>Properties\<close>

subsection \<open>Sample data\<close>

lemma take_drop_concat:
  "i < length xss \<Longrightarrow>
     take (length (xss ! i)) (drop (sum_list (map length (take i xss))) (concat xss)) = xss ! i"
proof (induction xss arbitrary: i)
  case Nil
  then show ?case by simp
next
  case (Cons xs xss)
  show ?case
  proof (cases i)
    case 0
    then show ?thesis by simp
  next
    case (Suc j)
    with Cons.prems have "j < length xss" by simp
    from Cons.IH [OF this] Suc show ?thesis by simp
  qed
qed

lemma buffer_objs_update [simp]: "buffer (m\<lparr>objs := os\<rparr>) = buffer m"
  by (rule ext) (simp add: buffer_def split: option.split)

lemma tensor_values_objs_update [simp]: "tensor_values (m\<lparr>objs := os\<rparr>) = tensor_values m"
  by (rule ext) (simp add: tensor_values_def)

lemma readable_objs_update [simp]: "readable (m\<lparr>objs := os\<rparr>) = readable m"
  by (rule ext) (simp add: readable_def split: option.split)

lemma length_tensor_values:
  "readable m t \<Longrightarrow> length (tensor_values m t) = volume (t_shape t)"
  by (auto simp: readable_def tensor_values_def buffer_def split: option.splits)

lemma volumes_are_lengths:
  "list_all (readable m) ts \<Longrightarrow> map volume (map t_shape ts) = map length (map (tensor_values m) ts)"
  by (simp add: list_all_iff length_tensor_values)

lemma dense_sample_of_concat:
  assumes "list_all (readable m) ts" and "i < length ts"
    and "buffer m' (tl_buf dst) = concat (map (tensor_values m) ts)"
    and "tl_shape dst = map t_shape ts"
  shows "tl_sample m' dst i = tensor_values m (ts ! i)"
proof -
  let ?vals = "map (tensor_values m) ts"
  have v: "map volume (tl_shape dst) = map length ?vals"
    unfolding assms(4) by (rule volumes_are_lengths [OF assms(1)])
  have off: "sample_offset (tl_shape dst) i = sum_list (map length (take i ?vals))"
    unfolding sample_offset_def by (metis v take_map)
  have vol: "volume (tl_shape dst ! i) = length (?vals ! i)"
    using assms(1,2,4) by (simp add: length_tensor_values list_all_length)
  have "tl_sample m' dst i = take (length (?vals ! i)) (drop (sum_list (map length (take i ?vals))) (concat ?vals))"
    by (simp add: tl_sample_def off vol assms(3))
  also have "\<dots> = ?vals ! i"
    using assms(2) by (intro take_drop_concat) simp
  finally show ?thesis using assms(2) by simp
qed

lemma storage_readable:
  "list_all (readable m) (tv_tensors src) \<Longrightarrow> a \<in> storage (PerSample src) \<Longrightarrow> a < length (bufs m)"
  by (auto simp: storage_def readable_def list_all_iff split: option.splits)


subsection \<open>Sequencing and framing\<close>

lemma syncs_simps [simp]:
  "syncs [] = []"
  "syncs (c # cs) = sync_of c @ syncs cs"
  "syncs (cs @ ds) = syncs cs @ syncs ds"
  by (simp_all add: syncs_def)

lemma engine_step_refl [simp]: "engine_step s s"
  by (simp add: engine_step_def same_engine_def)

lemma engine_step_trans: "engine_step s t \<Longrightarrow> engine_step t u \<Longrightarrow> engine_step s u"
  by (auto simp: engine_step_def same_engine_def)

lemma and_then_Inr:
  "and_then f g s = (Inr y, s') \<longleftrightarrow> (\<exists>x t. f s = (Inr x, t) \<and> g x t = (Inr y, s'))"
  by (auto simp: and_then_def split: prod.splits sum.splits)

lemma and_then_cases:
  assumes "and_then f g s = (r, s')"
  obtains (fail) e where "f s = (Inl e, s')" "r = Inl e"
        | (go) x t where "f s = (Inr x, t)" "g x t = (r, s')"
  using assms by (auto simp: and_then_def split: prod.splits sum.splits)

lemma for_each_append:
  "for_each (xs @ ys) body s =
     (case for_each xs body s of (Inl e, t) \<Rightarrow> (Inl e, t) | (Inr u, t) \<Rightarrow> for_each ys body t)"
  by (induction xs arbitrary: s) (auto split: prod.splits sum.splits)

lemma for_each_invariant:
  assumes "for_each xs body s = (r, s')" and "I s"
    and "\<And>x t q t'. x \<in> set xs \<Longrightarrow> I t \<Longrightarrow> body x t = (q, t') \<Longrightarrow> I t'"
  shows "I s'"
  using assms
proof (induction xs arbitrary: s)
  case Nil
  then show ?case by simp
next
  case (Cons x xs)
  obtain q t where b: "body x s = (q, t)" by (cases "body x s")
  have It: "I t" using Cons.prems(2,3) b by (meson list.set_intros(1))
  show ?case
  proof (cases q)
    case (Inl e)
    with Cons.prems(1) b have "s' = t" by simp
    with It show ?thesis by simp
  next
    case (Inr u)
    with Cons.prems(1) b have "for_each xs body t = (r, s')" by simp
    from Cons.IH [OF this It] Cons.prems(3) show ?thesis by (meson list.set_intros(2))
  qed
qed

lemma for_each_error:
  assumes "for_each xs body s = (Inl e, s')"
  shows "\<exists>x\<in>set xs. \<exists>t. fst (body x t) = Inl e"
  using assms
proof (induction xs arbitrary: s)
  case Nil
  then show ?case by simp
next
  case (Cons x xs)
  obtain q t where b: "body x s = (q, t)" by (cases "body x s")
  show ?case
  proof (cases q)
    case (Inl e')
    with Cons.prems b have "e' = e" by simp
    with Inl b have "fst (body x s) = Inl e" by simp
    then show ?thesis by auto
  next
    case (Inr u)
    with Cons.prems b have "for_each xs body t = (Inl e, s')" by simp
    from Cons.IH [OF this] show ?thesis by auto
  qed
qed

lemma engine_step_record_call:
  "sync_of c = [] \<Longrightarrow> engine_step s t \<Longrightarrow> engine_step s (record_call c t)"
  by (auto simp: engine_step_def same_engine_def record_call_def)


lemma AddInput_step: "AddInput C i p s = (r, s') \<Longrightarrow> engine_step s s'"
  by (auto simp: AddInput_def engine_step_def same_engine_def record_call_def make_shared_def
      split: option.splits batch.splits sum.splits prod.splits)


lemma AddArgumentInput_step: "AddArgumentInput a s = (r, s') \<Longrightarrow> engine_step s s'"
  by (auto simp: AddArgumentInput_def engine_step_def same_engine_def record_call_def)


lemma AddOutput_step: "AddOutput C i s = (r, s') \<Longrightarrow> engine_step s s'"
  by (auto simp: AddOutput_def engine_step_def same_engine_def record_call_def make_shared_def)


lemma SetBatchSizes_step: "SetBatchSizes s = (r, s') \<Longrightarrow> engine_step s s'"
  by (auto simp: SetBatchSizes_def engine_step_def same_engine_def record_call_def)


lemma Resize_output_step: "Resize_output ds i s = (r, s') \<Longrightarrow> engine_step s s'"
  by (auto simp: Resize_output_def engine_step_def same_engine_def record_call_def
      split: option.splits if_splits prod.splits)


lemma for_each_step:
  assumes "for_each xs body s = (r, s')"
    and "\<And>x t q t'. body x t = (q, t') \<Longrightarrow> engine_step t t'"
  shows "engine_step s s'"
  using assms(1)
  by (rule for_each_invariant [where I = "engine_step s"])
     (auto intro: engine_step_trans assms(2))


lemma Setup_outputs_step:
  assumes "Setup_outputs s = (r, s')"
  shows "engine_step s s'"
proof -
  obtain q st where su: "op_Setup (op s) (op_state (op s)) (ws s) (mem s) = (q, st)"
    by (cases "op_Setup (op s) (op_state (op s)) (ws s) (mem s)")
  let ?s1 = "record_call Call_Setup (s\<lparr>op := (op s)\<lparr>op_state := st\<rparr>\<rparr>)"
  have 1: "engine_step s ?s1"
    by (simp add: engine_step_def same_engine_def record_call_def)
  show ?thesis
  proof (cases q)
    case (Inl msg)
    with assms su have "s' = ?s1" by (simp add: Setup_outputs_def)
    with 1 show ?thesis by simp
  next
    case (Inr v)
    obtain ok ds where v: "v = (ok, ds)" by (cases v)
    show ?thesis
    proof (cases "ok \<and> op_CanInferOutputs (op s) st")
      case True
      with assms su Inr v have "for_each [0..<num_outputs s] (Resize_output ds) ?s1 = (r, s')"
        by (simp add: Setup_outputs_def Let_def)
      then have "engine_step ?s1 s'"
        by (rule for_each_step) (rule Resize_output_step)
      with 1 show ?thesis by (rule engine_step_trans)
    next
      case False
      with assms su Inr v have "s' = ?s1" by (auto simp: Setup_outputs_def Let_def)
      with 1 show ?thesis by simp
    qed
  qed
qed


lemma Run_operator_step: "Run_operator s = (r, s') \<Longrightarrow> engine_step s s'"
  by (auto simp: Run_operator_def engine_step_def same_engine_def record_call_def
      split: prod.splits option.splits)


lemma collect_outputs_step:
  "collect_outputs C is acc s = (r, s') \<Longrightarrow> engine_step s s'"
proof (induction "is" arbitrary: acc s)
  case Nil
  then show ?case by simp
next
  case (Cons i "is")
  show ?case
  proof (cases "OutputPtr (ws s) i")
    case None
    with Cons.prems show ?thesis by simp
  next
    case (Some p)
    show ?thesis
    proof (cases "AsTensorList C (mem s) p")
      case (Inl e)
      with Cons.prems Some show ?thesis by simp
    next
      case (Inr v)
      obtain q m' where v: "v = (q, m')" by (cases v)
      with Cons.prems Some Inr have "collect_outputs C is (acc @ [q]) (s\<lparr>mem := m'\<rparr>) = (r, s')"
        by simp
      from Cons.IH [OF this] have "engine_step (s\<lparr>mem := m'\<rparr>) s'" .
      moreover have "engine_step s (s\<lparr>mem := m'\<rparr>)"
        by (simp add: engine_step_def same_engine_def)
      ultimately show ?thesis by (blast intro: engine_step_trans)
    qed
  qed
qed

lemma and_then_step:
  assumes "and_then f g s = (r, s')"
    and "\<And>q t. f s = (q, t) \<Longrightarrow> engine_step s t"
    and "\<And>x t. f s = (Inr x, t) \<Longrightarrow> g x t = (r, s') \<Longrightarrow> engine_step t s'"
  shows "engine_step s s'"
  using assms(1)
proof (cases rule: and_then_cases)
  case (fail e)
  then show ?thesis using assms(2) by blast
next
  case (go x t)
  from assms(2) [OF go(1)] assms(3) [OF go] show ?thesis by (rule engine_step_trans)
qed

lemma populate_step:
  "populate WSI WSO inputs kwargs s = (r, s') \<Longrightarrow> engine_step s s'"
  unfolding populate_def
  apply (erule and_then_step)
   apply (erule for_each_step, erule AddInput_step)
  apply (erule and_then_step)
   apply (erule for_each_step, erule AddArgumentInput_step)
  apply (erule and_then_step)
   apply (erule for_each_step, erule AddOutput_step)
  apply (erule SetBatchSizes_step)
  done

lemma RunImpl_step:
  "RunImpl WSI WSO inputs kwargs s = (r, s') \<Longrightarrow> engine_step s s'"
  unfolding RunImpl_def
  apply (erule and_then_step)
   apply (erule populate_step)
  apply (erule and_then_step)
   apply (erule Setup_outputs_step)
  apply (erule and_then_step)
   apply (erule Run_operator_step)
  apply (erule collect_outputs_step)
  done

subsection \<open>Populating the workspace\<close>

lemma for_each_snoc_Inr:
  "for_each (xs @ [x]) body s = (Inr (), s') \<longleftrightarrow>
     (\<exists>t. for_each xs body s = (Inr (), t) \<and> body x t = (Inr (), s'))"
  by (auto simp: for_each_append split: prod.splits sum.splits)

lemma AddInput_Inr:
  assumes "AddInput C i p s = (Inr u, s')"
  shows "\<exists>src b. deref (mem s) p = Some (Dense src)
           \<and> input_layout_default (GetSchema (op_spec s)) i (ShareData (empty_batch C) src) = Inr b
           \<and> s' = s\<lparr>mem := (mem s)\<lparr>objs := objs (mem s) @ [b]\<rparr>,
                    ws := (ws s)\<lparr>ws_inputs := ws_inputs (ws s) @ [length (objs (mem s))]\<rparr>,
                    calls := calls s @ [Call_AddInput (length (objs (mem s)))]\<rparr>"
  using assms
  by (auto simp: AddInput_def make_shared_def record_call_def
      split: option.splits batch.splits sum.splits)

lemma deref_append:
  "deref m p = Some b \<Longrightarrow> deref (m\<lparr>objs := objs m @ os\<rparr>) p = Some b"
  by (auto simp: deref_def nth_append split: if_splits)

lemma AddInputs_Inr:
  assumes "for_each [0..<j] (\<lambda>i. AddInput C i (inputs ! i)) s = (Inr (), s')"
  shows "\<exists>bs. length bs = j
         \<and> s' = s\<lparr>mem := (mem s)\<lparr>objs := objs (mem s) @ bs\<rparr>,
                  ws := (ws s)\<lparr>ws_inputs := ws_inputs (ws s) @
                          [length (objs (mem s))..<length (objs (mem s)) + j]\<rparr>,
                  calls := calls s @
                          map Call_AddInput [length (objs (mem s))..<length (objs (mem s)) + j]\<rparr>
         \<and> (\<forall>i<j. \<forall>src. deref (mem s) (inputs ! i) = Some (Dense src) \<longrightarrow>
               input_layout_default (GetSchema (op_spec s)) i (ShareData (empty_batch C) src)
                 = Inr (bs ! i))"
  using assms
proof (induction j arbitrary: s')
  case 0
  then show ?case by simp
next
  case (Suc j)
  let ?k = "length (objs (mem s))"
  from Suc.prems obtain t where
    t: "for_each [0..<j] (\<lambda>i. AddInput C i (inputs ! i)) s = (Inr (), t)"
    and b: "AddInput C j (inputs ! j) t = (Inr (), s')"
    by (auto simp: for_each_snoc_Inr)
  from Suc.IH [OF t] obtain bs where
    len: "length bs = j"
    and teq: "t = s\<lparr>mem := (mem s)\<lparr>objs := objs (mem s) @ bs\<rparr>,
                   ws := (ws s)\<lparr>ws_inputs := ws_inputs (ws s) @ [?k..<?k + j]\<rparr>,
                   calls := calls s @ map Call_AddInput [?k..<?k + j]\<rparr>"
    and old: "\<forall>i<j. \<forall>src. deref (mem s) (inputs ! i) = Some (Dense src) \<longrightarrow>
               input_layout_default (GetSchema (op_spec s)) i (ShareData (empty_batch C) src)
                 = Inr (bs ! i)"
    by blast
  from AddInput_Inr [OF b] obtain src' b' where
    d: "deref (mem t) (inputs ! j) = Some (Dense src')"
    and l: "input_layout_default (GetSchema (op_spec t)) j (ShareData (empty_batch C) src') = Inr b'"
    and seq: "s' = t\<lparr>mem := (mem t)\<lparr>objs := objs (mem t) @ [b']\<rparr>,
                     ws := (ws t)\<lparr>ws_inputs := ws_inputs (ws t) @ [length (objs (mem t))]\<rparr>,
                     calls := calls t @ [Call_AddInput (length (objs (mem t)))]\<rparr>"
    by blast
  have kt: "length (objs (mem t)) = ?k + j" using teq len by simp
  have 1: "length (bs @ [b']) = Suc j" using len by simp
  have 2: "s' = s\<lparr>mem := (mem s)\<lparr>objs := objs (mem s) @ (bs @ [b'])\<rparr>,
                  ws := (ws s)\<lparr>ws_inputs := ws_inputs (ws s) @ [?k..<?k + Suc j]\<rparr>,
                  calls := calls s @ map Call_AddInput [?k..<?k + Suc j]\<rparr>"
  proof -
    from teq have f: "mem t = (mem s)\<lparr>objs := objs (mem s) @ bs\<rparr>"
      "ws t = (ws s)\<lparr>ws_inputs := ws_inputs (ws s) @ [?k..<?k + j]\<rparr>"
      "calls t = calls s @ map Call_AddInput [?k..<?k + j]"
      by simp_all
    show ?thesis
      unfolding seq kt f by (subst teq) (simp add: len)
  qed
  have 3: "\<forall>i<Suc j. \<forall>src. deref (mem s) (inputs ! i) = Some (Dense src) \<longrightarrow>
             input_layout_default (GetSchema (op_spec s)) i (ShareData (empty_batch C) src)
               = Inr ((bs @ [b']) ! i)"
  proof (intro allI impI)
    fix i src
    assume i: "i < Suc j" and ds: "deref (mem s) (inputs ! i) = Some (Dense src)"
    show "input_layout_default (GetSchema (op_spec s)) i (ShareData (empty_batch C) src)
            = Inr ((bs @ [b']) ! i)"
    proof (cases "i < j")
      case True
      with old ds len show ?thesis by (simp add: nth_append)
    next
      case False
      with i have ij: "i = j" by simp
      from deref_append [OF ds, of bs] teq have "deref (mem t) (inputs ! i) = Some (Dense src)"
        by simp
      with d ij have "src' = src" by simp
      moreover have "op_spec t = op_spec s" using teq by simp
      ultimately show ?thesis using l ij len by (simp add: nth_append)
    qed
  qed
  from 1 2 3 show ?case by blast
qed

lemma AddArgumentInputs:
  "for_each kwargs AddArgumentInput s =
     (Inr (), s\<lparr>ws := (ws s)\<lparr>ws_argument_inputs :=
                     ws_argument_inputs (ws s) ++ map_of (rev kwargs)\<rparr>,
                calls := calls s @ map (\<lambda>a. Call_AddArgumentInput (fst a) (snd a)) kwargs\<rparr>)"
proof (induction kwargs arbitrary: s)
  case Nil
  show ?case by simp
next
  case (Cons a kwargs)
  have m: "m(fst a \<mapsto> snd a) ++ map_of (rev kwargs) = m ++ map_of (rev kwargs @ [a])" for m
    by (cases a) (simp add: map_add_assoc [symmetric] map_add_upd)
  have "AddArgumentInput a s =
      (Inr (), s\<lparr>ws := (ws s)\<lparr>ws_argument_inputs := (ws_argument_inputs (ws s))(fst a \<mapsto> snd a)\<rparr>,
                 calls := calls s @ [Call_AddArgumentInput (fst a) (snd a)]\<rparr>)"
    by (simp add: AddArgumentInput_def record_call_def)
  then show ?case
    by (simp add: Cons.IH m del: fun_upd_apply map_of_append)
qed

lemma AddOutputs:
  "for_each xs (AddOutput C) s =
     (Inr (), s\<lparr>mem := (mem s)\<lparr>objs := objs (mem s) @
                     replicate (length xs) (sized_batch C (batch_size s))\<rparr>,
                ws := (ws s)\<lparr>ws_outputs := ws_outputs (ws s) @
                     [length (objs (mem s))..<length (objs (mem s)) + length xs]\<rparr>,
                calls := calls s @
                     map Call_AddOutput [length (objs (mem s))..<length (objs (mem s)) + length xs]\<rparr>)"
proof (induction xs arbitrary: s)
  case Nil
  show ?case by simp
next
  case (Cons x xs)
  have u: "[n..<Suc (n + k)] = n # [Suc n..<Suc (n + k)]" for n k
    by (simp add: upt_conv_Cons)
  show ?case
    by (simp add: AddOutput_def [of C x s] make_shared_def record_call_def Cons.IH u
        del: upt_Suc)
qed

lemma populate_Inr:
  assumes "populate WSI WSO inputs kwargs s = (Inr u, s0)"
  shows "\<exists>bs. length bs = length inputs
         \<and> s0 = s\<lparr>mem := (mem s)\<lparr>objs := objs (mem s) @ bs @
                          replicate (num_outputs s) (sized_batch WSO (batch_size s))\<rparr>,
                  ws := (ws s)\<lparr>
                     ws_inputs := ws_inputs (ws s) @
                       [length (objs (mem s))..<length (objs (mem s)) + length inputs],
                     ws_outputs := ws_outputs (ws s) @
                       [length (objs (mem s)) + length inputs..<
                        length (objs (mem s)) + length inputs + num_outputs s],
                     ws_argument_inputs := ws_argument_inputs (ws s) ++ map_of (rev kwargs),
                     ws_batch_sizes := Some (batch_size s)\<rparr>,
                  calls := calls s @
                     map Call_AddInput [length (objs (mem s))..<length (objs (mem s)) + length inputs] @
                     map (\<lambda>a. Call_AddArgumentInput (fst a) (snd a)) kwargs @
                     map Call_AddOutput [length (objs (mem s)) + length inputs..<
                        length (objs (mem s)) + length inputs + num_outputs s] @
                     [Call_SetBatchSizes (batch_size s)]\<rparr>
         \<and> (\<forall>i<length inputs. \<forall>src. deref (mem s) (inputs ! i) = Some (Dense src) \<longrightarrow>
               input_layout_default (GetSchema (op_spec s)) i (ShareData (empty_batch WSI) src)
                 = Inr (bs ! i))"
proof -
  let ?k = "length (objs (mem s))"
  from assms obtain t1 t2 t3 where
    1: "for_each [0..<length inputs] (\<lambda>i. AddInput WSI i (inputs ! i)) s = (Inr (), t1)"
    and 2: "for_each kwargs AddArgumentInput t1 = (Inr (), t2)"
    and 3: "for_each [0..<num_outputs s] (AddOutput WSO) t2 = (Inr (), t3)"
    and 4: "SetBatchSizes t3 = (Inr u, s0)"
    unfolding populate_def and_then_Inr by auto
  from AddInputs_Inr [OF 1] obtain bs where
    len: "length bs = length inputs"
    and t1: "t1 = s\<lparr>mem := (mem s)\<lparr>objs := objs (mem s) @ bs\<rparr>,
                   ws := (ws s)\<lparr>ws_inputs := ws_inputs (ws s) @ [?k..<?k + length inputs]\<rparr>,
                   calls := calls s @ map Call_AddInput [?k..<?k + length inputs]\<rparr>"
    and lay: "\<forall>i<length inputs. \<forall>src. deref (mem s) (inputs ! i) = Some (Dense src) \<longrightarrow>
               input_layout_default (GetSchema (op_spec s)) i (ShareData (empty_batch WSI) src)
                 = Inr (bs ! i)"
    by blast
  from 2 have t2: "t2 = t1\<lparr>ws := (ws t1)\<lparr>ws_argument_inputs :=
                     ws_argument_inputs (ws t1) ++ map_of (rev kwargs)\<rparr>,
                calls := calls t1 @ map (\<lambda>a. Call_AddArgumentInput (fst a) (snd a)) kwargs\<rparr>"
    by (simp add: AddArgumentInputs)
  from 3 have t3: "t3 = t2\<lparr>mem := (mem t2)\<lparr>objs := objs (mem t2) @
                     replicate (num_outputs s) (sized_batch WSO (batch_size t2))\<rparr>,
                ws := (ws t2)\<lparr>ws_outputs := ws_outputs (ws t2) @
                     [length (objs (mem t2))..<length (objs (mem t2)) + num_outputs s]\<rparr>,
                calls := calls t2 @
                     map Call_AddOutput [length (objs (mem t2))..<length (objs (mem t2)) + num_outputs s]\<rparr>"
    by (simp add: AddOutputs)
  from 4 have s0: "s0 = record_call (Call_SetBatchSizes (batch_size t3))
        (t3\<lparr>ws := (ws t3)\<lparr>ws_batch_sizes := Some (batch_size t3)\<rparr>\<rparr>)"
    by (simp add: SetBatchSizes_def)
  have "s0 = s\<lparr>mem := (mem s)\<lparr>objs := objs (mem s) @ bs @
                          replicate (num_outputs s) (sized_batch WSO (batch_size s))\<rparr>,
                  ws := (ws s)\<lparr>
                     ws_inputs := ws_inputs (ws s) @ [?k..<?k + length inputs],
                     ws_outputs := ws_outputs (ws s) @
                       [?k + length inputs..<?k + length inputs + num_outputs s],
                     ws_argument_inputs := ws_argument_inputs (ws s) ++ map_of (rev kwargs),
                     ws_batch_sizes := Some (batch_size s)\<rparr>,
                  calls := calls s @
                     map Call_AddInput [?k..<?k + length inputs] @
                     map (\<lambda>a. Call_AddArgumentInput (fst a) (snd a)) kwargs @
                     map Call_AddOutput [?k + length inputs..<?k + length inputs + num_outputs s] @
                     [Call_SetBatchSizes (batch_size s)]\<rparr>"
    unfolding s0 t3 t2 t1 by (simp add: record_call_def len)
  with len lay show ?thesis by blast
qed

lemma map_t_shape_views [simp]: "map t_shape (views b off shp) = shp"
  by (induction shp arbitrary: off) simp_all

lemma t_buf_views: "t \<in> set (views b off shp) \<Longrightarrow> t_buf t = b"
  by (induction shp arbitrary: off) auto

lemma ShareData_props:
  "shape (ShareData (empty_batch C) src) = tl_shape src"
  "dtype (ShareData (empty_batch C) src) = tl_type src"
  "GetLayout (ShareData (empty_batch C) src) = tl_layout src"
  "storage (ShareData (empty_batch C) src) \<subseteq> storage (Dense src)"
  by (cases C; auto simp: ShareData_def empty_batch_def shape_def dtype_def GetLayout_def
        storage_def dest: t_buf_views)+

lemma SetLayout_props:
  "shape (SetLayout b l) = shape b" "dtype (SetLayout b l) = dtype b"
  "GetLayout (SetLayout b l) = l" "storage (SetLayout b l) = storage b"
  by (cases b; simp add: SetLayout_def shape_def dtype_def GetLayout_def storage_def)+

lemma input_layout_default_Inr:
  assumes "input_layout_default schema i (ShareData (empty_batch C) src) = Inr b"
  shows "shape b = tl_shape src \<and> dtype b = tl_type src \<and> storage b \<subseteq> storage (Dense src)
       \<and> (tl_layout src \<noteq> [] \<longrightarrow> GetLayout b = tl_layout src)
       \<and> (tl_layout src = [] \<longrightarrow>
            GetInputLayout schema i (sample_dim (tl_shape src)) [] = Inr (GetLayout b))"
  using assms
  by (auto simp: input_layout_default_def ShareData_props(1-3) SetLayout_props
      split: if_splits sum.splits dest: subsetD [OF ShareData_props(4)])

subsection \<open>Resizing the output slots\<close>

lemma fresh_tensors_props:
  "fresh_tensors m shp = (ts, m') \<Longrightarrow>
     map t_shape ts = shp \<and> objs m' = objs m \<and> (\<exists>bs. bufs m' = bufs m @ bs)"
proof (induction shp arbitrary: m ts m')
  case Nil
  then show ?case by simp
next
  case (Cons x shp)
  let ?m1 = "snd (new_buffer m (replicate (volume x) 0))"
  obtain ts1 m2 where r: "fresh_tensors ?m1 shp = (ts1, m2)"
    by (cases "fresh_tensors ?m1 shp")
  from Cons.IH [OF r] have
    ih: "map t_shape ts1 = shp" "objs m2 = objs ?m1" "\<exists>bs. bufs m2 = bufs ?m1 @ bs"
    by simp_all
  from Cons.prems r have
    ts: "ts = \<lparr>t_buf = Some (fst (new_buffer m (replicate (volume x) 0))), t_off = 0, t_shape = x\<rparr> # ts1"
    and m': "m' = m2"
    by (simp_all add: Let_def split: prod.splits)
  from ih ts m' show ?case by (auto simp: new_buffer_def)
qed

lemma Resize_props:
  assumes "Resize m b shp ty = (b', m')"
  shows "shape b' = shp \<and> dtype b' = ty \<and> GetLayout b' = GetLayout b
       \<and> objs m' = objs m \<and> (\<exists>bs. bufs m' = bufs m @ bs)"
proof (cases b)
  case (Dense x)
  with assms show ?thesis
    by (auto simp: Resize_def new_buffer_def shape_def dtype_def GetLayout_def Let_def)
next
  case (PerSample x)
  obtain ts m2 where f: "fresh_tensors m shp = (ts, m2)" by (cases "fresh_tensors m shp")
  from fresh_tensors_props [OF f] PerSample assms f show ?thesis
    by (auto simp: Resize_def shape_def dtype_def GetLayout_def)
qed

lemma Resize_output_Inr:
  assumes "i < length (ws_outputs (ws s))"
    and "ws_outputs (ws s) ! i < length (objs (mem s))"
    and "i < length ds"
  shows "\<exists>b' bs. Resize_output ds i s =
           (Inr (), s\<lparr>mem := \<lparr>objs = (objs (mem s))[ws_outputs (ws s) ! i := b'],
                              bufs = bufs (mem s) @ bs\<rparr>,
                      calls := calls s @ [Call_Resize i (desc_shape (ds ! i)) (desc_type (ds ! i))]\<rparr>)
         \<and> shape b' = desc_shape (ds ! i) \<and> dtype b' = desc_type (ds ! i)"
proof -
  let ?p = "ws_outputs (ws s) ! i"
  let ?b = "objs (mem s) ! ?p"
  obtain b' m' where r: "Resize (mem s) ?b (desc_shape (ds ! i)) (desc_type (ds ! i)) = (b', m')"
    by (cases "Resize (mem s) ?b (desc_shape (ds ! i)) (desc_type (ds ! i))")
  from Resize_props [OF r] obtain bs where
    p: "shape b' = desc_shape (ds ! i)" "dtype b' = desc_type (ds ! i)"
       "objs m' = objs (mem s)" "bufs m' = bufs (mem s) @ bs"
    by blast
  have m: "assign m' ?p b' = \<lparr>objs = (objs (mem s))[?p := b'], bufs = bufs (mem s) @ bs\<rparr>"
    using p(3,4) by (simp add: assign_def)
  have "Resize_output ds i s =
          (Inr (), s\<lparr>mem := \<lparr>objs = (objs (mem s))[?p := b'], bufs = bufs (mem s) @ bs\<rparr>,
                     calls := calls s @ [Call_Resize i (desc_shape (ds ! i)) (desc_type (ds ! i))]\<rparr>)"
    using assms r by (simp add: Resize_output_def OutputPtr_def deref_def record_call_def m)
  with p(1,2) show ?thesis by blast
qed

lemma Resize_outputs:
  assumes "j \<le> length (ws_outputs (ws s))" and "j \<le> length ds"
    and "distinct (take j (ws_outputs (ws s)))"
    and "\<forall>i<j. ws_outputs (ws s) ! i < length (objs (mem s))"
  shows "\<exists>os bs. for_each [0..<j] (Resize_output ds) s =
           (Inr (), s\<lparr>mem := \<lparr>objs = os, bufs = bufs (mem s) @ bs\<rparr>,
                      calls := calls s @
                        map (\<lambda>i. Call_Resize i (desc_shape (ds ! i)) (desc_type (ds ! i))) [0..<j]\<rparr>)
         \<and> length os = length (objs (mem s))
         \<and> (\<forall>i<j. shape (os ! (ws_outputs (ws s) ! i)) = desc_shape (ds ! i)
                  \<and> dtype (os ! (ws_outputs (ws s) ! i)) = desc_type (ds ! i))
         \<and> (\<forall>p. p \<notin> set (take j (ws_outputs (ws s))) \<longrightarrow> os ! p = objs (mem s) ! p)"
  using assms
proof (induction j)
  case 0
  have "s = s\<lparr>mem := \<lparr>objs = objs (mem s), bufs = bufs (mem s) @ []\<rparr>, calls := calls s @ []\<rparr>"
    by simp
  then show ?case by (intro exI [of _ "objs (mem s)"] exI [of _ "[]"]) simp
next
  case (Suc j)
  let ?out = "ws_outputs (ws s)"
  let ?rs = "\<lambda>n. map (\<lambda>i. Call_Resize i (desc_shape (ds ! i)) (desc_type (ds ! i))) [0..<n]"
  from Suc.prems have pre: "j \<le> length ?out" "j \<le> length ds" "distinct (take j ?out)"
    "\<forall>i<j. ?out ! i < length (objs (mem s))"
    by (simp_all add: take_Suc_conv_app_nth)
  from Suc.IH [OF pre] obtain os bs where
    run: "for_each [0..<j] (Resize_output ds) s =
            (Inr (), s\<lparr>mem := \<lparr>objs = os, bufs = bufs (mem s) @ bs\<rparr>, calls := calls s @ ?rs j\<rparr>)"
    and len: "length os = length (objs (mem s))"
    and resized: "\<forall>i<j. shape (os ! (?out ! i)) = desc_shape (ds ! i)
                  \<and> dtype (os ! (?out ! i)) = desc_type (ds ! i)"
    and rest: "\<forall>p. p \<notin> set (take j ?out) \<longrightarrow> os ! p = objs (mem s) ! p"
    by blast
  let ?t = "s\<lparr>mem := \<lparr>objs = os, bufs = bufs (mem s) @ bs\<rparr>, calls := calls s @ ?rs j\<rparr>"
  let ?p = "?out ! j"
  from Suc.prems have j: "j < length ?out" "j < length ds" "?p < length (objs (mem s))"
    by simp_all
  from Suc.prems(3) j(1) have new: "?p \<notin> set (take j ?out)"
    by (simp add: take_Suc_conv_app_nth)
  have "\<exists>b' bs'. Resize_output ds j ?t =
           (Inr (), ?t\<lparr>mem := \<lparr>objs = (objs (mem ?t))[ws_outputs (ws ?t) ! j := b'],
                              bufs = bufs (mem ?t) @ bs'\<rparr>,
                      calls := calls ?t @ [Call_Resize j (desc_shape (ds ! j)) (desc_type (ds ! j))]\<rparr>)
         \<and> shape b' = desc_shape (ds ! j) \<and> dtype b' = desc_type (ds ! j)"
    using j len by (intro Resize_output_Inr) simp_all
  then obtain b' bs' where
    step: "Resize_output ds j ?t =
             (Inr (), s\<lparr>mem := \<lparr>objs = os[?p := b'], bufs = bufs (mem s) @ (bs @ bs')\<rparr>,
                        calls := calls s @ ?rs (Suc j)\<rparr>)"
    and b': "shape b' = desc_shape (ds ! j)" "dtype b' = desc_type (ds ! j)"
    by auto
  have 1: "for_each [0..<Suc j] (Resize_output ds) s =
             (Inr (), s\<lparr>mem := \<lparr>objs = os[?p := b'], bufs = bufs (mem s) @ (bs @ bs')\<rparr>,
                        calls := calls s @ ?rs (Suc j)\<rparr>)"
    using run step by (simp add: for_each_append)
  have 2: "length (os[?p := b']) = length (objs (mem s))" using len by simp
  have 3: "\<forall>i<Suc j. shape (os[?p := b'] ! (?out ! i)) = desc_shape (ds ! i)
                  \<and> dtype (os[?p := b'] ! (?out ! i)) = desc_type (ds ! i)"
  proof (intro allI impI)
    fix i assume i: "i < Suc j"
    show "shape (os[?p := b'] ! (?out ! i)) = desc_shape (ds ! i)
        \<and> dtype (os[?p := b'] ! (?out ! i)) = desc_type (ds ! i)"
    proof (cases "i = j")
      case True
      with b' j(3) len show ?thesis by simp
    next
      case False
      with i have ij: "i < j" by simp
      with j(1) have "?out ! i \<in> set (take j ?out)"
        by (metis in_set_conv_nth length_take min.absorb2 nth_take order_less_imp_le)
      with new have "?out ! i \<noteq> ?p" by auto
      with resized ij show ?thesis by simp
    qed
  qed
  have 4: "\<forall>p. p \<notin> set (take (Suc j) ?out) \<longrightarrow> os[?p := b'] ! p = objs (mem s) ! p"
    using rest j(1) by (auto simp: take_Suc_conv_app_nth)
  from 1 2 3 4 show ?case by blast
qed

lemma Resize_outputs_short:
  assumes n: "n \<le> length (ws_outputs (ws s))" and short: "length ds < n"
    and dist: "distinct (take n (ws_outputs (ws s)))"
    and live: "\<forall>i<n. ws_outputs (ws s) ! i < length (objs (mem s))"
  shows "fst (for_each [0..<n] (Resize_output ds) s) = Inl (OutputDesc_index (length ds))"
proof -
  let ?k = "length ds"
  have split: "[0..<n] = [0..<?k] @ ?k # [Suc ?k..<n]"
    using short by (metis le_add2 le_add_same_cancel2 less_imp_add_positive upt_add_eq_append
        upt_conv_Cons)
  have pre: "?k \<le> length (ws_outputs (ws s))" "distinct (take ?k (ws_outputs (ws s)))"
    "\<forall>i<?k. ws_outputs (ws s) ! i < length (objs (mem s))"
    using n short dist live
    by (auto simp: distinct_conv_nth)
  from Resize_outputs [OF pre(1) order_refl pre(2,3)] obtain os bs where
    run: "for_each [0..<?k] (Resize_output ds) s =
            (Inr (), s\<lparr>mem := \<lparr>objs = os, bufs = bufs (mem s) @ bs\<rparr>,
                       calls := calls s @
                         map (\<lambda>i. Call_Resize i (desc_shape (ds ! i)) (desc_type (ds ! i)))
                           [0..<?k]\<rparr>)"
    and len: "length os = length (objs (mem s))"
    by blast
  let ?t = "s\<lparr>mem := \<lparr>objs = os, bufs = bufs (mem s) @ bs\<rparr>,
              calls := calls s @
                map (\<lambda>i. Call_Resize i (desc_shape (ds ! i)) (desc_type (ds ! i))) [0..<?k]\<rparr>"
  have "Resize_output ds ?k ?t = (Inl (OutputDesc_index ?k), ?t)"
    using n short live len by (simp add: Resize_output_def OutputPtr_def deref_def)
  with run show ?thesis
    by (subst split) (simp add: for_each_append)
qed

subsection \<open>Where a read past the end of the descriptors can come from\<close>

lemma and_then_in_bounds:
  assumes "\<not> out_of_bounds (fst (f s))"
    and "\<And>x t. f s = (Inr x, t) \<Longrightarrow> \<not> out_of_bounds (fst (g x t))"
  shows "\<not> out_of_bounds (fst (and_then f g s))"
proof (cases "f s")
  case (Pair q t)
  show ?thesis
  proof (cases q)
    case (Inl e)
    with Pair assms(1) show ?thesis by (cases e) (simp_all add: and_then_def)
  next
    case (Inr x)
    with Pair assms(2) [of x t] show ?thesis by (simp add: and_then_def)
  qed
qed

lemma for_each_in_bounds:
  assumes "\<And>x t. x \<in> set xs \<Longrightarrow> \<not> out_of_bounds (fst (body x t))"
  shows "\<not> out_of_bounds (fst (for_each xs body s))"
proof (cases "for_each xs body s")
  case (Pair q t)
  show ?thesis
  proof (cases q)
    case (Inl e)
    with Pair for_each_error [of xs body s e t] obtain x u where
      "x \<in> set xs" "fst (body x u) = Inl e" by auto
    with assms [of x u] Pair Inl show ?thesis by simp
  next
    case (Inr x)
    with Pair show ?thesis by simp
  qed
qed

lemma AddInput_in_bounds: "\<not> out_of_bounds (fst (AddInput C i p s))"
  by (auto simp: AddInput_def input_layout_default_def make_shared_def
      split: option.splits batch.splits sum.splits if_splits)

lemma populate_in_bounds: "\<not> out_of_bounds (fst (populate WSI WSO inputs kwargs s))"
  unfolding populate_def
  by (intro and_then_in_bounds for_each_in_bounds AddInput_in_bounds)
     (simp_all add: AddArgumentInput_def AddOutput_def SetBatchSizes_def make_shared_def)

lemma Resize_output_in_bounds:
  "i < length ds \<Longrightarrow> \<not> out_of_bounds (fst (Resize_output ds i s))"
  by (auto simp: Resize_output_def split: option.splits prod.splits)

lemma Setup_outputs_in_bounds:
  assumes "\<And>ds st. op_Setup (op s) (op_state (op s)) (ws s) (mem s) = (Inr (True, ds), st)
             \<Longrightarrow> num_outputs s \<le> length ds"
  shows "\<not> out_of_bounds (fst (Setup_outputs s))"
proof (cases "op_Setup (op s) (op_state (op s)) (ws s) (mem s)")
  case (Pair q st)
  show ?thesis
  proof (cases q)
    case (Inl msg)
    with Pair show ?thesis by (simp add: Setup_outputs_def)
  next
    case (Inr v)
    obtain ok ds where v: "v = (ok, ds)" by (cases v)
    show ?thesis
    proof (cases "ok \<and> op_CanInferOutputs (op s) st")
      case True
      with Pair Inr v assms [of ds st] have "num_outputs s \<le> length ds" by simp
      then have "\<not> out_of_bounds (fst (for_each [0..<num_outputs s] (Resize_output ds)
          (record_call Call_Setup (s\<lparr>op := (op s)\<lparr>op_state := st\<rparr>\<rparr>))))"
        by (intro for_each_in_bounds Resize_output_in_bounds) simp
      with Pair Inr v True show ?thesis by (simp add: Setup_outputs_def Let_def)
    next
      case False
      with Pair Inr v show ?thesis by (auto simp: Setup_outputs_def Let_def)
    qed
  qed
qed

lemma Run_operator_in_bounds: "\<not> out_of_bounds (fst (Run_operator s))"
  by (simp add: Run_operator_def split: prod.splits option.splits)

lemma AsTensorList_in_bounds: "\<not> out_of_bounds (map_sum id fst (AsTensorList C m p))"
  by (cases C)
     (auto simp: AsTensorList_def AsTensorList_TensorList_def AsTensorList_TensorVector_def
        make_shared_def Copy_def new_buffer_def Let_def
        split: option.splits batch.splits sum.splits prod.splits)

lemma collect_outputs_in_bounds: "\<not> out_of_bounds (fst (collect_outputs C is acc s))"
proof (induction "is" arbitrary: acc s)
  case Nil
  show ?case by simp
next
  case (Cons i "is")
  show ?case
  proof (cases "OutputPtr (ws s) i")
    case None
    then show ?thesis by simp
  next
    case (Some p)
    show ?thesis
    proof (cases "AsTensorList C (mem s) p")
      case (Inl e)
      with AsTensorList_in_bounds [of C "mem s" p] Some show ?thesis by (cases e) simp_all
    next
      case (Inr v)
      with Some Cons.IH show ?thesis by (cases v) simp
    qed
  qed
qed

lemma RunImpl_in_bounds:
  assumes "\<And>st w m ds st'. op_Setup (op s) st w m = (Inr (True, ds), st')
             \<Longrightarrow> num_outputs s \<le> length ds"
  shows "\<not> out_of_bounds (fst (RunImpl WSI WSO inputs kwargs s))"
  unfolding RunImpl_def
proof (intro and_then_in_bounds populate_in_bounds Run_operator_in_bounds
    collect_outputs_in_bounds)
  fix x t assume "populate WSI WSO inputs kwargs s = (Inr x, t)"
  then have "engine_step s t" by (rule populate_step)
  then have same: "op_Setup (op t) = op_Setup (op s)" "num_outputs t = num_outputs s"
    by (simp_all add: engine_step_def same_engine_def)
  show "\<not> out_of_bounds (fst (Setup_outputs t))"
    by (rule Setup_outputs_in_bounds) (simp add: same assms)
qed

lemma cudaStreamSynchronize_in_bounds: "\<not> out_of_bounds (fst (cudaStreamSynchronize stream s))"
  by (simp add: cudaStreamSynchronize_def Let_def split: list.splits)

lemma cudaStreamSynchronize_same:
  "cudaStreamSynchronize stream s = (r, t) \<Longrightarrow> same_engine s t \<and> ws t = ws s \<and> mem t = mem s"
  by (auto simp: cudaStreamSynchronize_def Let_def record_call_def same_engine_def
      split: list.splits)

lemma Run_synchronized_in_bounds:
  assumes "\<And>st w m ds st'. op_Setup (op s) st w m = (Inr (True, ds), st')
             \<Longrightarrow> num_outputs s \<le> length ds"
  shows "\<not> out_of_bounds (fst (Run_synchronized WSI WSO inputs kwargs stream s))"
  unfolding Run_synchronized_def
proof (intro and_then_in_bounds cudaStreamSynchronize_in_bounds)
  fix x t
  assume "cudaStreamSynchronize stream (ws_set_stream stream (ws_Clear s)) = (Inr x, t)"
  from cudaStreamSynchronize_same [OF this]
  have same: "op_Setup (op t) = op_Setup (op s)" "num_outputs t = num_outputs s"
    by (simp_all add: same_engine_def ws_set_stream_def ws_Clear_def record_call_def)
  show "\<not> out_of_bounds (fst (RunImpl WSI WSO inputs kwargs t))"
    by (rule RunImpl_in_bounds) (simp add: same assms)
next
  fix x t y u
  show "\<not> out_of_bounds (fst (Inr y, u))" by simp
qed

subsection \<open>Handing out the outputs\<close>

lemma grows_refl [simp]: "grows m m"
  by (simp add: grows_def)

lemma grows_trans: "grows m m' \<Longrightarrow> grows m' m'' \<Longrightarrow> grows m m''"
  by (auto simp: grows_def)

lemma grows_deref: "grows m m' \<Longrightarrow> deref m p = Some b \<Longrightarrow> deref m' p = Some b"
  by (auto simp: grows_def deref_def nth_append split: if_splits)

lemma grows_readable:
  assumes "grows m m'" and "readable m t"
  shows "readable m' t \<and> tensor_values m' t = tensor_values m t"
proof (cases "t_buf t")
  case None
  with assms show ?thesis by (simp add: readable_def tensor_values_def buffer_def)
next
  case (Some a)
  with assms show ?thesis
    by (auto simp: grows_def readable_def tensor_values_def buffer_def nth_append)
qed

lemma grows_readable_all:
  assumes "grows m m'" and "list_all (readable m) ts"
  shows "list_all (readable m') ts \<and> map (tensor_values m') ts = map (tensor_values m) ts"
  using assms grows_readable [OF assms(1)] by (simp add: list_all_iff)

lemma grows_dense_copy:
  assumes g: "grows m m'" and c: "dense_copy m q p"
  shows "dense_copy m' q p"
proof -
  from c obtain src dst a where
    *: "deref m p = Some (PerSample src)" "deref m q = Some (Dense dst)"
       "list_all (readable m) (tv_tensors src)"
       "tl_shape dst = map t_shape (tv_tensors src)" "tl_type dst = tv_type src"
       "tl_buf dst = Some a" "a < length (bufs m)"
       "bufs m ! a = concat (map (tensor_values m) (tv_tensors src))"
    unfolding dense_copy_def by blast
  from g *(7) have a: "a < length (bufs m')" "bufs m' ! a = bufs m ! a"
    by (auto simp: grows_def nth_append)
  from grows_readable_all [OF g *(3)] have r: "list_all (readable m') (tv_tensors src)"
    and v: "map (tensor_values m') (tv_tensors src) = map (tensor_values m) (tv_tensors src)"
    by simp_all
  have b: "bufs m' ! a = concat (map (tensor_values m') (tv_tensors src))"
    by (simp only: a(2) *(8) v)
  from grows_deref [OF g *(1)] grows_deref [OF g *(2)] r *(4-6) a(1) b
  show ?thesis unfolding dense_copy_def by blast
qed

lemma map_nth_eq: "map (\<lambda>i. f (xs ! i)) [0..<length xs] = map f xs"
  by (rule nth_equalityI) simp_all

lemma dense_copy_samples:
  assumes "deref m p = Some (PerSample src)" and "deref m q = Some (Dense dst)"
    and c: "dense_copy m q p"
  shows "tl_shape dst = map t_shape (tv_tensors src) \<and> tl_type dst = tv_type src
       \<and> samples m (Dense dst) = samples m (PerSample src)"
proof -
  from c assms(1,2) obtain a where
    *: "list_all (readable m) (tv_tensors src)"
       "tl_shape dst = map t_shape (tv_tensors src)" "tl_type dst = tv_type src"
       "tl_buf dst = Some a" "a < length (bufs m)"
       "bufs m ! a = concat (map (tensor_values m) (tv_tensors src))"
    unfolding dense_copy_def by auto
  have b: "buffer m (tl_buf dst) = concat (map (tensor_values m) (tv_tensors src))"
    using *(4-6) by (simp add: buffer_def)
  have "tl_sample m dst i = tensor_values m (tv_tensors src ! i)" if "i < length (tv_tensors src)" for i
    using dense_sample_of_concat [OF *(1) that b *(2)] .
  then have "map (tl_sample m dst) [0..<length (tv_tensors src)] =
             map (\<lambda>i. tensor_values m (tv_tensors src ! i)) [0..<length (tv_tensors src)]"
    by simp
  also have "\<dots> = map (tensor_values m) (tv_tensors src)"
    by (rule map_nth_eq)
  finally show ?thesis using *(2,3) by (simp add: samples_def)
qed

lemma AsTensorList_TensorVector_Inr:
  assumes "AsTensorList_TensorVector m p = Inr (q, m')"
  shows "grows m m' \<and> dense_copy m' q p"
proof -
  let ?m1 = "m\<lparr>objs := objs m @ [empty_batch TensorList_t]\<rparr>"
  from assms obtain src where d1: "deref ?m1 p = Some (PerSample src)"
    by (auto simp: AsTensorList_TensorVector_def make_shared_def
        split: option.splits batch.splits)
  then have live: "p < length (objs m)" and at: "objs m ! p = PerSample src"
    by (auto simp: deref_def nth_append empty_batch_def split: if_splits)
  let ?vals = "concat (map (tensor_values m) (tv_tensors src))"
  let ?dst = "\<lparr>tl_buf = Some (length (bufs m)), tl_shape = map t_shape (tv_tensors src),
               tl_type = tv_type src, tl_layout = tv_layout src\<rparr>"
  let ?m' = "m\<lparr>objs := objs m @ [Dense ?dst], bufs := bufs m @ [?vals]\<rparr>"
  from assms d1 have rd: "list_all (readable m) (tv_tensors src)"
    by (auto simp: AsTensorList_TensorVector_def make_shared_def Copy_def
        split: if_splits)
  with assms d1 have q: "q = length (objs m)" and m': "m' = ?m'"
    by (auto simp: AsTensorList_TensorVector_def make_shared_def Copy_def new_buffer_def
        assign_def)
  have g: "grows m ?m'" by (simp add: grows_def)
  have r': "list_all (readable ?m') (tv_tensors src)"
    and v': "map (tensor_values ?m') (tv_tensors src) = map (tensor_values m) (tv_tensors src)"
    using grows_readable_all [OF g rd] by simp_all
  have "dense_copy ?m' (length (objs m)) p"
    unfolding dense_copy_def
  proof (intro exI conjI)
    show "deref ?m' p = Some (PerSample src)"
      using live at by (simp add: deref_def nth_append)
    show "deref ?m' (length (objs m)) = Some (Dense ?dst)"
      by (simp add: deref_def)
    show "list_all (readable ?m') (tv_tensors src)" by (rule r')
    show "tl_shape ?dst = map t_shape (tv_tensors src)" by simp
    show "tl_type ?dst = tv_type src" by simp
    show "tl_buf ?dst = Some (length (bufs m))" by simp
    show "length (bufs m) < length (bufs ?m')" by simp
    have "bufs ?m' ! length (bufs m) = ?vals" by simp
    then show "bufs ?m' ! length (bufs m) = concat (map (tensor_values ?m') (tv_tensors src))"
      by (simp only: v')
  qed
  with g q m' show ?thesis by simp
qed

lemma collect_outputs_dense:
  "collect_outputs TensorList_t is acc s = (Inr outs, s') \<Longrightarrow>
     s' = s \<and> outs = acc @ map (\<lambda>i. ws_outputs (ws s) ! i) is
     \<and> (\<forall>i\<in>set is. i < length (ws_outputs (ws s)))"
proof (induction "is" arbitrary: acc)
  case Nil
  then show ?case by simp
next
  case (Cons i "is")
  from Cons.prems have i: "i < length (ws_outputs (ws s))"
    by (auto simp: OutputPtr_def split: if_splits)
  with Cons.prems have
    "collect_outputs TensorList_t is (acc @ [ws_outputs (ws s) ! i]) s = (Inr outs, s')"
    by (simp add: OutputPtr_def AsTensorList_def AsTensorList_TensorList_def)
  from Cons.IH [OF this] i show ?case by simp
qed

lemma collect_outputs_per_sample:
  "collect_outputs TensorVector_t is acc s = (Inr outs, s') \<Longrightarrow>
     \<exists>m'. s' = s\<lparr>mem := m'\<rparr> \<and> grows (mem s) m'
        \<and> length outs = length acc + length is
        \<and> (\<forall>k<length is. is ! k < length (ws_outputs (ws s))
              \<and> dense_copy m' (outs ! (length acc + k)) (ws_outputs (ws s) ! (is ! k)))
        \<and> take (length acc) outs = acc"
proof (induction "is" arbitrary: acc s)
  case Nil
  then show ?case by (intro exI [of _ "mem s"]) auto
next
  case (Cons i "is")
  let ?p = "ws_outputs (ws s) ! i"
  from Cons.prems have i: "i < length (ws_outputs (ws s))"
    by (auto simp: OutputPtr_def split: if_splits)
  with Cons.prems obtain q m1 where
    a: "AsTensorList_TensorVector (mem s) ?p = Inr (q, m1)"
    and r: "collect_outputs TensorVector_t is (acc @ [q]) (s\<lparr>mem := m1\<rparr>) = (Inr outs, s')"
    by (auto simp: OutputPtr_def AsTensorList_def split: sum.splits)
  from AsTensorList_TensorVector_Inr [OF a] have g1: "grows (mem s) m1" and c1: "dense_copy m1 q ?p"
    by simp_all
  from Cons.IH [OF r] obtain m' where
    s': "s' = s\<lparr>mem := m'\<rparr>" and g2: "grows m1 m'"
    and len: "length outs = length acc + 1 + length is"
    and rest: "\<forall>k<length is. is ! k < length (ws_outputs (ws s))
              \<and> dense_copy m' (outs ! (length acc + 1 + k)) (ws_outputs (ws s) ! (is ! k))"
    and pre: "take (length acc + 1) outs = acc @ [q]"
    by auto
  from pre have q: "outs ! length acc = q"
    by (metis add.commute less_add_one nth_append_length nth_take plus_1_eq_Suc)
  from pre have pre': "take (length acc) outs = acc"
    by (metis append_eq_conv_conj butlast_snoc butlast_take diff_add_inverse2 le_add1 len
        length_append take_all_iff trans_le_add1)
  have all: "\<forall>k<length (i # is). (i # is) ! k < length (ws_outputs (ws s))
              \<and> dense_copy m' (outs ! (length acc + k)) (ws_outputs (ws s) ! ((i # is) ! k))"
  proof (intro allI impI)
    fix k assume k: "k < length (i # is)"
    show "(i # is) ! k < length (ws_outputs (ws s))
              \<and> dense_copy m' (outs ! (length acc + k)) (ws_outputs (ws s) ! ((i # is) ! k))"
    proof (cases k)
      case 0
      with i q grows_dense_copy [OF g2 c1] show ?thesis by simp
    next
      case (Suc j)
      with k rest show ?thesis by simp
    qed
  qed
  from s' grows_trans [OF g1 g2] len all pre' show ?case by auto
qed

lemma RunImpl_Inr:
  assumes "RunImpl WSI WSO inputs kwargs s = (Inr outs, s')"
  shows "\<exists>t. engine_step s t \<and> collect_outputs WSO [0..<num_outputs s] [] t = (Inr outs, s')"
proof -
  from assms obtain u0 s0 u1 s1 u2 t where
    "populate WSI WSO inputs kwargs s = (Inr u0, s0)" "Setup_outputs s0 = (Inr u1, s1)"
    "Run_operator s1 = (Inr u2, t)"
    and c: "collect_outputs WSO [0..<num_outputs s] [] t = (Inr outs, s')"
    unfolding RunImpl_def and_then_Inr by blast
  then have "engine_step s s0" "engine_step s0 s1" "engine_step s1 t"
    by (auto intro: populate_step Setup_outputs_step Run_operator_step)
  then have "engine_step s t" by (blast intro: engine_step_trans)
  with c show ?thesis by blast
qed

lemma RunImpl_outputs:
  assumes "RunImpl WSI WSO inputs kwargs s = (Inr outs, s')"
  shows "length outs = num_outputs s \<and> num_outputs s' = num_outputs s
       \<and> num_outputs s \<le> length (ws_outputs (ws s'))
       \<and> (\<forall>i<num_outputs s.
            (WSO = TensorList_t \<longrightarrow> outs ! i = ws_outputs (ws s') ! i)
          \<and> (WSO = TensorVector_t \<longrightarrow> dense_copy (mem s') (outs ! i) (ws_outputs (ws s') ! i)))"
proof -
  let ?n = "num_outputs s"
  from RunImpl_Inr [OF assms] obtain t where
    t: "engine_step s t" and c: "collect_outputs WSO [0..<?n] [] t = (Inr outs, s')"
    by blast
  from RunImpl_step [OF assms] have n: "num_outputs s' = ?n"
    by (simp add: engine_step_def same_engine_def)
  show ?thesis
  proof (cases WSO)
    case TensorList_t
    from collect_outputs_dense [OF c [unfolded TensorList_t]] have
      "s' = t" "outs = map (\<lambda>i. ws_outputs (ws t) ! i) [0..<?n]"
      "\<forall>i\<in>set [0..<?n]. i < length (ws_outputs (ws t))"
      by simp_all
    moreover from this(3) have "?n \<le> length (ws_outputs (ws t))"
      by (cases ?n) auto
    ultimately show ?thesis using n TensorList_t by simp
  next
    case TensorVector_t
    from collect_outputs_per_sample [OF c [unfolded TensorVector_t]] obtain m' where
      s': "s' = t\<lparr>mem := m'\<rparr>" and len: "length outs = ?n"
      and all: "\<forall>k<?n. k < length (ws_outputs (ws t))
                  \<and> dense_copy m' (outs ! k) (ws_outputs (ws t) ! k)"
      by auto
    from all have "?n \<le> length (ws_outputs (ws t))"
      by (cases ?n) auto
    with s' len all n TensorVector_t show ?thesis by simp
  qed
qed

lemma dense_copy_result:
  assumes "dense_copy m q p"
  shows "\<exists>src dst. deref m p = Some (PerSample src) \<and> deref m q = Some (Dense dst)
           \<and> tl_shape dst = map t_shape (tv_tensors src) \<and> tl_type dst = tv_type src
           \<and> samples m (Dense dst) = samples m (PerSample src)"
proof -
  from assms obtain src dst where
    d: "deref m p = Some (PerSample src)" "deref m q = Some (Dense dst)"
    unfolding dense_copy_def by blast
  from dense_copy_samples [OF d assms] d show ?thesis by blast
qed

lemma Run_ThreadPool_Inr:
  assumes "Run_ThreadPool I O' inputs kwargs tp s = (Inr outs, s')"
  shows "O' = CPUBackend \<and> (\<exists>t WSI. num_outputs t = num_outputs s
           \<and> RunImpl WSI TensorVector_t inputs kwargs t = (Inr outs, s'))"
  using assms
  by (auto simp: Run_ThreadPool_def ws_SetThreadPool_def ws_Clear_def record_call_def
      split: if_splits intro!: exI [of _ TensorVector_t]
      exI [of _ "ws_SetThreadPool tp (ws_Clear s)"])

lemma Run_synchronized_Inr:
  assumes "Run_synchronized WSI WSO inputs kwargs stream (s :: 's machine) = (Inr outs, s')"
  shows "\<exists>(t :: 's machine) u. num_outputs t = num_outputs s \<and> RunImpl WSI WSO inputs kwargs t = (Inr outs, u)
           \<and> ws s' = ws u \<and> mem s' = mem u \<and> num_outputs s' = num_outputs u"
proof -
  from assms obtain x t u y where
    1: "cudaStreamSynchronize stream (ws_set_stream stream (ws_Clear s)) = (Inr x, t)"
    and 2: "RunImpl WSI WSO inputs kwargs t = (Inr outs, u)"
    and 3: "cudaStreamSynchronize stream u = (Inr y, s')"
    unfolding Run_synchronized_def and_then_Inr by auto
  from cudaStreamSynchronize_same [OF 1] have "num_outputs t = num_outputs s"
    by (simp add: same_engine_def ws_set_stream_def ws_Clear_def record_call_def)
  moreover from cudaStreamSynchronize_same [OF 3]
  have "ws s' = ws u" "mem s' = mem u" "num_outputs s' = num_outputs u"
    by (simp_all add: same_engine_def)
  ultimately have "num_outputs t = num_outputs s \<and> RunImpl WSI WSO inputs kwargs t = (Inr outs, u)
           \<and> ws s' = ws u \<and> mem s' = mem u \<and> num_outputs s' = num_outputs u"
    using 2 by simp
  then show ?thesis by (rule_tac x = t in exI, rule_tac x = u in exI)
qed

lemma Run_cudaStream_Inr:
  assumes "Run_cudaStream I O' inputs kwargs stream (s :: 's machine) = (Inr outs, s')"
  shows "O' = GPUBackend \<and> (\<exists>(t :: 's machine) u WSI. num_outputs t = num_outputs s
           \<and> RunImpl WSI TensorList_t inputs kwargs t = (Inr outs, u)
           \<and> ws s' = ws u \<and> mem s' = mem u \<and> num_outputs s' = num_outputs u)"
proof -
  from assms have o: "O' = GPUBackend"
    by (auto simp: Run_cudaStream_def split: if_splits)
  from assms obtain WSI where
    "Run_synchronized WSI TensorList_t inputs kwargs stream s = (Inr outs, s')"
    by (auto simp: Run_cudaStream_def split: if_splits)
  from Run_synchronized_Inr [OF this] o show ?thesis by blast
qed

subsection \<open>The calls made by a run\<close>

lemma syncs_map [simp]:
  "syncs (map Call_AddInput xs) = []"
  "syncs (map Call_AddOutput xs) = []"
  "syncs (map (\<lambda>a. Call_AddArgumentInput (fst a) (snd a)) ys) = []"
  by (simp_all add: syncs_def)

lemma syncs_resizes: "list_all is_Resize rs \<Longrightarrow> syncs rs = []"
proof (induction rs)
  case Nil
  show ?case by simp
next
  case (Cons c rs)
  then show ?case by (cases c) simp_all
qed

lemma bracketed_syncs:
  assumes "bracketed stream inputs kwargs s s'"
  shows "syncs (drop (length (calls s)) (calls s')) = [stream, stream]"
proof -
  from assms obtain ins outs rs where
    c: "calls s' = calls s @
          [Call_Clear, Call_set_stream stream, Call_cudaStreamSynchronize stream] @
          map Call_AddInput ins @
          map (\<lambda>a. Call_AddArgumentInput (fst a) (snd a)) kwargs @
          map Call_AddOutput outs @
          [Call_SetBatchSizes (batch_size s), Call_Setup] @ rs @
          [Call_Run, Call_cudaStreamSynchronize stream]"
    and r: "list_all is_Resize rs"
    unfolding bracketed_def by blast
  show ?thesis
    unfolding c by (simp add: syncs_resizes [OF r])
qed

lemma Resize_output_calls:
  "Resize_output ds i s = (r, s') \<Longrightarrow> \<exists>rs. calls s' = calls s @ rs \<and> list_all is_Resize rs"
  by (auto simp: Resize_output_def record_call_def split: option.splits if_splits prod.splits)

lemma Setup_outputs_calls:
  assumes "Setup_outputs s = (r, s')"
  shows "\<exists>rs. calls s' = calls s @ Call_Setup # rs \<and> list_all is_Resize rs"
proof -
  obtain q st where su: "op_Setup (op s) (op_state (op s)) (ws s) (mem s) = (q, st)"
    by (cases "op_Setup (op s) (op_state (op s)) (ws s) (mem s)")
  let ?t = "record_call Call_Setup (s\<lparr>op := (op s)\<lparr>op_state := st\<rparr>\<rparr>)"
  let ?I = "\<lambda>u. \<exists>rs. calls u = calls s @ Call_Setup # rs \<and> list_all is_Resize rs"
  have t: "?I ?t" by (simp add: record_call_def)
  show ?thesis
  proof (cases q)
    case (Inl msg)
    with assms su t show ?thesis by (simp add: Setup_outputs_def)
  next
    case (Inr v)
    obtain ok ds where v: "v = (ok, ds)" by (cases v)
    show ?thesis
    proof (cases "ok \<and> op_CanInferOutputs (op s) st")
      case True
      with assms su Inr v have l: "for_each [0..<num_outputs s] (Resize_output ds) ?t = (r, s')"
        by (simp add: Setup_outputs_def Let_def)
      show ?thesis
      proof (rule for_each_invariant [OF l, where I = ?I])
        show "?I ?t" by (rule t)
      next
        fix x u q' u'
        assume "?I u" and "Resize_output ds x u = (q', u')"
        with Resize_output_calls [of ds x u q' u'] show "?I u'" by auto
      qed
    next
      case False
      with assms su Inr v t show ?thesis by (auto simp: Setup_outputs_def Let_def)
    qed
  qed
qed

lemma Run_operator_calls: "Run_operator s = (r, s') \<Longrightarrow> calls s' = calls s @ [Call_Run]"
  by (auto simp: Run_operator_def record_call_def split: prod.splits)

lemma collect_outputs_calls: "collect_outputs C is acc s = (r, s') \<Longrightarrow> calls s' = calls s"
proof (induction "is" arbitrary: acc s)
  case Nil
  then show ?case by simp
next
  case (Cons i "is")
  show ?case
  proof (cases "OutputPtr (ws s) i")
    case None
    with Cons.prems show ?thesis by simp
  next
    case (Some p)
    show ?thesis
    proof (cases "AsTensorList C (mem s) p")
      case (Inl e)
      with Cons.prems Some show ?thesis by simp
    next
      case (Inr v)
      obtain q m' where "v = (q, m')" by (cases v)
      with Cons.prems Some Inr have "collect_outputs C is (acc @ [q]) (s\<lparr>mem := m'\<rparr>) = (r, s')"
        by simp
      from Cons.IH [OF this] show ?thesis by simp
    qed
  qed
qed

lemma RunImpl_calls:
  assumes "RunImpl WSI WSO inputs kwargs s = (Inr outs, s')"
  shows "\<exists>ins os rs.
           calls s' = calls s @ map Call_AddInput ins @
             map (\<lambda>a. Call_AddArgumentInput (fst a) (snd a)) kwargs @
             map Call_AddOutput os @
             [Call_SetBatchSizes (batch_size s), Call_Setup] @ rs @ [Call_Run]
         \<and> length ins = length inputs \<and> length os = num_outputs s \<and> list_all is_Resize rs"
proof -
  let ?k = "length (objs (mem s))"
  from assms obtain s0 u1 s1 u2 t where
    p: "populate WSI WSO inputs kwargs s = (Inr (), s0)" and su: "Setup_outputs s0 = (Inr u1, s1)"
    and ro: "Run_operator s1 = (Inr u2, t)"
    and c: "collect_outputs WSO [0..<num_outputs s] [] t = (Inr outs, s')"
    unfolding RunImpl_def and_then_Inr by auto
  from populate_Inr [OF p] have
    0: "calls s0 = calls s @ map Call_AddInput [?k..<?k + length inputs] @
          map (\<lambda>a. Call_AddArgumentInput (fst a) (snd a)) kwargs @
          map Call_AddOutput [?k + length inputs..<?k + length inputs + num_outputs s] @
          [Call_SetBatchSizes (batch_size s)]"
    by (elim exE conjE) simp
  from Setup_outputs_calls [OF su] obtain rs where
    1: "calls s1 = calls s0 @ Call_Setup # rs" and r: "list_all is_Resize rs"
    by blast
  from Run_operator_calls [OF ro] collect_outputs_calls [OF c]
  have "calls s' = calls s1 @ [Call_Run]" by simp
  with 0 1 have
    "calls s' = calls s @ map Call_AddInput [?k..<?k + length inputs] @
       map (\<lambda>a. Call_AddArgumentInput (fst a) (snd a)) kwargs @
       map Call_AddOutput [?k + length inputs..<?k + length inputs + num_outputs s] @
       [Call_SetBatchSizes (batch_size s), Call_Setup] @ rs @ [Call_Run]"
    by simp
  with r show ?thesis
    by (intro exI [of _ "[?k..<?k + length inputs]"]
        exI [of _ "[?k + length inputs..<?k + length inputs + num_outputs s]"] exI [of _ rs])
       simp
qed

lemma cudaStreamSynchronize_calls:
  "cudaStreamSynchronize stream s = (r, t) \<Longrightarrow>
     calls t = calls s @ [Call_cudaStreamSynchronize stream] \<and> batch_size t = batch_size s"
  by (auto simp: cudaStreamSynchronize_def Let_def record_call_def split: list.splits)

lemma Run_synchronized_bracketed:
  assumes "Run_synchronized WSI WSO inputs kwargs stream s = (Inr outs, s')"
  shows "bracketed stream inputs kwargs s s'"
proof -
  let ?c = "ws_set_stream stream (ws_Clear s)"
  from assms obtain x t u y where
    1: "cudaStreamSynchronize stream ?c = (Inr x, t)"
    and 2: "RunImpl WSI WSO inputs kwargs t = (Inr outs, u)"
    and 3: "cudaStreamSynchronize stream u = (Inr y, s')"
    unfolding Run_synchronized_def and_then_Inr by auto
  have c0: "calls ?c = calls s @ [Call_Clear, Call_set_stream stream]"
    and b0: "batch_size ?c = batch_size s" and n0: "num_outputs ?c = num_outputs s"
    by (simp_all add: ws_set_stream_def ws_Clear_def record_call_def)
  from cudaStreamSynchronize_calls [OF 1] cudaStreamSynchronize_same [OF 1] c0 b0 n0
  have t: "calls t = calls s @ [Call_Clear, Call_set_stream stream, Call_cudaStreamSynchronize stream]"
    "batch_size t = batch_size s" "num_outputs t = num_outputs s"
    by (simp_all add: same_engine_def)
  from RunImpl_calls [OF 2] obtain ins os rs where
    u: "calls u = calls t @ map Call_AddInput ins @
             map (\<lambda>a. Call_AddArgumentInput (fst a) (snd a)) kwargs @
             map Call_AddOutput os @
             [Call_SetBatchSizes (batch_size t), Call_Setup] @ rs @ [Call_Run]"
    and l: "length ins = length inputs" "length os = num_outputs t" "list_all is_Resize rs"
    by blast
  from cudaStreamSynchronize_calls [OF 3] u t
  have "calls s' = calls s @
          [Call_Clear, Call_set_stream stream, Call_cudaStreamSynchronize stream] @
          map Call_AddInput ins @
          map (\<lambda>a. Call_AddArgumentInput (fst a) (snd a)) kwargs @
          map Call_AddOutput os @
          [Call_SetBatchSizes (batch_size s), Call_Setup] @ rs @
          [Call_Run, Call_cudaStreamSynchronize stream]"
    by simp
  with l t(3) show ?thesis unfolding bracketed_def by auto
qed

lemma Run_synchronized_syncs:
  assumes "Run_synchronized WSI WSO inputs kwargs stream s = (r, s')"
  shows "\<exists>new. calls s' = calls s @ new \<and> (syncs new = [stream] \<or> syncs new = [stream, stream])"
proof -
  let ?c = "ws_set_stream stream (ws_Clear s)"
  have c0: "calls ?c = calls s @ [Call_Clear, Call_set_stream stream]"
    by (simp add: ws_set_stream_def ws_Clear_def record_call_def)
  from assms show ?thesis
    unfolding Run_synchronized_def
  proof (cases rule: and_then_cases)
    case (fail e)
    from cudaStreamSynchronize_calls [OF fail(1)] c0 show ?thesis by simp
  next
    case (go x t)
    from cudaStreamSynchronize_calls [OF go(1)] c0
    have t: "calls t = calls s @ [Call_Clear, Call_set_stream stream, Call_cudaStreamSynchronize stream]"
      by simp
    from go(2) show ?thesis
    proof (cases rule: and_then_cases)
      case (fail e)
      from RunImpl_step [OF fail(1)] t show ?thesis
        by (auto simp: engine_step_def)
    next
      case (go out u)
      from RunImpl_step [OF go(1)] obtain cs where
        u: "calls u = calls t @ cs" "syncs cs = []"
        by (auto simp: engine_step_def)
      from go(2) obtain q where "cudaStreamSynchronize stream u = (q, s')"
        by (auto simp: and_then_def split: prod.splits sum.splits)
      from cudaStreamSynchronize_calls [OF this] u t show ?thesis by simp
    qed
  qed
qed

lemma Run_ThreadPool_syncs:
  assumes "Run_ThreadPool I O' inputs kwargs tp s = (r, s')"
  shows "\<exists>new. calls s' = calls s @ new \<and> syncs new = []"
proof (cases "backend s = CPUBackend \<and> I = CPUBackend \<and> O' = CPUBackend")
  case True
  let ?c = "ws_SetThreadPool tp (ws_Clear s)"
  have c0: "calls ?c = calls s @ [Call_Clear, Call_SetThreadPool tp]"
    by (simp add: ws_SetThreadPool_def ws_Clear_def record_call_def)
  from assms True have "RunImpl TensorVector_t TensorVector_t inputs kwargs ?c = (r, s')"
    by (simp add: Run_ThreadPool_def)
  from RunImpl_step [OF this] c0 show ?thesis
    by (auto simp: engine_step_def)
next
  case False
  with assms have "s' = s" by (auto simp: Run_ThreadPool_def)
  then show ?thesis by simp
qed

subsection \<open>Representation bridge\<close>

text \<open>
  Claim C5.  Converting a handle to a per-sample batch whose samples can be read always
  succeeds and always copies.  The result is a handle that was not live before, to a new
  dense batch; no existing batch object and no existing buffer is changed; the new batch
  owns a newly allocated buffer, which it shares with nothing (in particular not with the
  source); and it has as many samples as the source, with the same shapes, the same
  element type and, sample by sample, the same element values.
\<close>

theorem AsTensorList_per_sample_copies:
  assumes src: "deref m input = Some (PerSample src)"
    and rd: "list_all (readable m) (tv_tensors src)"
  shows "\<exists>dst m'.
           AsTensorList TensorVector_t m input = Inr (length (objs m), m')
         \<and> deref m (length (objs m)) = None
         \<and> objs m' = objs m @ [Dense dst]
         \<and> bufs m' = bufs m @ [concat (map (tensor_values m) (tv_tensors src))]
         \<and> tl_buf dst = Some (length (bufs m))
         \<and> storage (Dense dst) \<inter> storage (PerSample src) = {}
         \<and> length (tl_shape dst) = length (tv_tensors src)
         \<and> tl_shape dst = map t_shape (tv_tensors src)
         \<and> tl_type dst = tv_type src
         \<and> (\<forall>i<length (tv_tensors src). tl_sample m' dst i = tensor_values m (tv_tensors src ! i))"
proof -
  let ?vals = "concat (map (tensor_values m) (tv_tensors src))"
  let ?dst = "\<lparr>tl_buf = Some (length (bufs m)), tl_shape = map t_shape (tv_tensors src),
               tl_type = tv_type src, tl_layout = tv_layout src\<rparr>"
  let ?m' = "m\<lparr>objs := objs m @ [Dense ?dst], bufs := bufs m @ [?vals]\<rparr>"
  let ?m1 = "m\<lparr>objs := objs m @ [empty_batch TensorList_t]\<rparr>"
  from src have live: "input < length (objs m)" and at: "objs m ! input = PerSample src"
    by (auto simp: deref_def split: if_splits)
  have d1: "deref ?m1 input = Some (PerSample src)"
    using live at by (simp add: deref_def nth_append)
  have r1: "list_all (readable ?m1) (tv_tensors src)"
    using rd by simp
  have v1: "map (tensor_values ?m1) (tv_tensors src) = map (tensor_values m) (tv_tensors src)"
    by simp
  have call: "AsTensorList TensorVector_t m input = Inr (length (objs m), ?m')"
    by (simp add: AsTensorList_def AsTensorList_TensorVector_def make_shared_def d1 Copy_def rd
        new_buffer_def assign_def)
  have fresh: "deref m (length (objs m)) = None"
    by (simp add: deref_def)
  have disj: "storage (Dense ?dst) \<inter> storage (PerSample src) = {}"
    using storage_readable [OF rd] by (auto simp: storage_def)
  have buf: "buffer ?m' (tl_buf ?dst) = ?vals"
    by (simp add: buffer_def)
  have vals: "\<forall>i<length (tv_tensors src). tl_sample ?m' ?dst i = tensor_values m (tv_tensors src ! i)"
    using dense_sample_of_concat [OF rd _ buf] by simp
  from call fresh disj vals show ?thesis
    by (intro exI [of _ ?dst] exI [of _ ?m']) simp
qed

theorem AsTensorList_per_sample_copies_witness:
  "deref per_sample_heap 0 = Some (PerSample per_sample_example)
   \<and> list_all (readable per_sample_heap) (tv_tensors per_sample_example)
   \<and> (\<exists>dst m'. AsTensorList TensorVector_t per_sample_heap 0 = Inr (1, m')
         \<and> objs m' = [PerSample per_sample_example, Dense dst]
         \<and> bufs m' = [[10, 20], [0, 30], [10, 20, 30]]
         \<and> tl_buf dst = Some 2
         \<and> tl_shape dst = [[2], [1]]
         \<and> tl_type dst = 4
         \<and> tl_sample m' dst 0 = [10, 20]
         \<and> tl_sample m' dst 1 = [30])"
proof -
  have d: "deref per_sample_heap 0 = Some (PerSample per_sample_example)"
    by (simp add: deref_def per_sample_heap_def)
  have r: "list_all (readable per_sample_heap) (tv_tensors per_sample_example)"
    by (simp add: readable_def per_sample_heap_def per_sample_example_def volume_def)
  have v: "tensor_values per_sample_heap (tv_tensors per_sample_example ! 0) = [10, 20]"
          "tensor_values per_sample_heap (tv_tensors per_sample_example ! 1) = [30]"
    by (simp_all add: tensor_values_def buffer_def per_sample_heap_def per_sample_example_def
        volume_def)
  from AsTensorList_per_sample_copies [OF d r] obtain dst m' where
    *: "AsTensorList TensorVector_t per_sample_heap 0 = Inr (length (objs per_sample_heap), m')"
       "objs m' = objs per_sample_heap @ [Dense dst]"
       "bufs m' = bufs per_sample_heap @
          [concat (map (tensor_values per_sample_heap) (tv_tensors per_sample_example))]"
       "tl_buf dst = Some (length (bufs per_sample_heap))"
       "tl_shape dst = map t_shape (tv_tensors per_sample_example)"
       "tl_type dst = tv_type per_sample_example"
       "\<forall>i<length (tv_tensors per_sample_example).
          tl_sample m' dst i = tensor_values per_sample_heap (tv_tensors per_sample_example ! i)"
    by blast
  have len: "length (tv_tensors per_sample_example) = 2"
    by (simp add: per_sample_example_def)
  from *(7) len v have s: "tl_sample m' dst 0 = [10, 20]" "tl_sample m' dst 1 = [30]"
    by simp_all
  have c: "concat (map (tensor_values per_sample_heap) (tv_tensors per_sample_example)) = [10, 20, 30]"
    by (simp add: tensor_values_def buffer_def per_sample_heap_def per_sample_example_def volume_def)
  from *(1-6) s c have
    "AsTensorList TensorVector_t per_sample_heap 0 = Inr (1, m')
       \<and> objs m' = [PerSample per_sample_example, Dense dst]
       \<and> bufs m' = [[10, 20], [0, 30], [10, 20, 30]]
       \<and> tl_buf dst = Some 2
       \<and> tl_shape dst = [[2], [1]]
       \<and> tl_type dst = 4
       \<and> tl_sample m' dst 0 = [10, 20]
       \<and> tl_sample m' dst 1 = [30]"
    by (simp add: per_sample_heap_def per_sample_example_def)
  with d r show ?thesis by blast
qed

text \<open>
  Claim C6.  Converting a handle to a dense batch to the dense representation is the
  identity: the call always succeeds, the returned handle is the handle that was passed
  in (the same batch object, hence the same storage), and the heap is returned as it was:
  nothing is allocated and nothing is copied.
\<close>

theorem AsTensorList_dense_identity:
  "AsTensorList TensorList_t m input = Inr (input, m)"
  by (simp add: AsTensorList_def AsTensorList_TensorList_def)

subsection \<open>Dispatch\<close>

text \<open>
  Claim C2.  For every pair of input and output backend other than host to host,
  accelerator to accelerator and host to accelerator, each of the three \<open>Run\<close> overloads
  fails with the unsupported-backends error of its primary template, whatever the class
  the engine was instantiated for, and leaves the state exactly as it found it: the
  workspace is not touched, the operator is not invoked, and no call on any collaborator
  is recorded.
\<close>

theorem Run_unsupported_pair:
  assumes "(InBackend, OutBackend) \<notin>
             {(CPUBackend, CPUBackend), (GPUBackend, GPUBackend), (CPUBackend, GPUBackend)}"
  shows "Run g InBackend OutBackend inputs kwargs s =
           (Inl (DALI_FAIL ''Unsupported backends in DirectOperator.Run().''), s)
       \<and> Run_ThreadPool InBackend OutBackend inputs kwargs thread_pool s =
           (Inl (DALI_FAIL ''Unsupported backends in DirectOperator.Run() with thread pool.''), s)
       \<and> Run_cudaStream InBackend OutBackend inputs kwargs cuda_stream s =
           (Inl (DALI_FAIL ''Unsupported backends in DirectOperator.Run() with CUDA stream''), s)"
  using assms by (auto simp: Run_def Run_ThreadPool_def Run_cudaStream_def)

theorem Run_unsupported_pair_witness:
  "(GPUBackend, CPUBackend) \<notin>
      {(CPUBackend, CPUBackend), (GPUBackend, GPUBackend), (CPUBackend, GPUBackend)}
   \<and> Run (initial_statics ()) GPUBackend CPUBackend [0] [] (scenario GPUBackend) =
        (Inl (DALI_FAIL ''Unsupported backends in DirectOperator.Run().''), scenario GPUBackend)
   \<and> Run_ThreadPool GPUBackend CPUBackend [0] [] None (scenario GPUBackend) =
        (Inl (DALI_FAIL ''Unsupported backends in DirectOperator.Run() with thread pool.''),
         scenario GPUBackend)
   \<and> Run_cudaStream GPUBackend CPUBackend [0] [] 0 (scenario GPUBackend) =
        (Inl (DALI_FAIL ''Unsupported backends in DirectOperator.Run() with CUDA stream''),
         scenario GPUBackend)"
  using Run_unsupported_pair [of GPUBackend CPUBackend "initial_statics ()" "[0]" "[]"
      "scenario GPUBackend" None 0]
  by simp

text \<open>
  Claim C7.  On each of the three supported instantiations the overload without a binding
  is the overload with an explicit binding, called with the static default of the
  engine's class: when the explicit worker pool (host) or compute stream (accelerator,
  staged) equals the current default, both calls give the same result, the same outputs
  and the same final state, for all inputs and keyword arguments.
\<close>

theorem Run_default_path_eq_explicit:
  "(backend s = CPUBackend \<and> thread_pool = Some (shared_thread_pool g CPUBackend) \<longrightarrow>
      Run g CPUBackend CPUBackend inputs kwargs s =
      Run_ThreadPool CPUBackend CPUBackend inputs kwargs thread_pool s)
 \<and> (backend s = GPUBackend \<and> cuda_stream = shared_cuda_stream g GPUBackend \<longrightarrow>
      Run g GPUBackend GPUBackend inputs kwargs s =
      Run_cudaStream GPUBackend GPUBackend inputs kwargs cuda_stream s)
 \<and> (backend s = MixedBackend \<and> cuda_stream = shared_cuda_stream g MixedBackend \<longrightarrow>
      Run g CPUBackend GPUBackend inputs kwargs s =
      Run_cudaStream CPUBackend GPUBackend inputs kwargs cuda_stream s)"
  by (simp add: Run_def)

theorem Run_default_path_eq_explicit_witness:
  "Run (initial_statics ()) CPUBackend CPUBackend [0] [] (scenario CPUBackend) =
     Run_ThreadPool CPUBackend CPUBackend [0] []
       (Some \<lparr>num_threads = 1, device_id = 0, set_affinity = False\<rparr>) (scenario CPUBackend)
 \<and> Run (initial_statics ()) GPUBackend GPUBackend [0] [] (scenario GPUBackend) =
     Run_cudaStream GPUBackend GPUBackend [0] [] 0 (scenario GPUBackend)
 \<and> Run (initial_statics ()) CPUBackend GPUBackend [0] [] (scenario MixedBackend) =
     Run_cudaStream CPUBackend GPUBackend [0] [] 0 (scenario MixedBackend)
 \<and> fst (Run (initial_statics ()) CPUBackend CPUBackend [0] [] (scenario CPUBackend)) = Inr [3]
 \<and> fst (Run (initial_statics ()) GPUBackend GPUBackend [0] [] (scenario GPUBackend)) = Inr [2]
 \<and> fst (Run (initial_statics ()) CPUBackend GPUBackend [0] [] (scenario MixedBackend)) = Inr [2]"
proof -
  have c: "backend (scenario CPUBackend) = CPUBackend
         \<and> Some \<lparr>num_threads = 1, device_id = 0, set_affinity = False\<rparr> =
             Some (shared_thread_pool (initial_statics ()) CPUBackend)"
    by (simp add: scenario_def initial_statics_def)
  have g: "backend (scenario GPUBackend) = GPUBackend
         \<and> 0 = shared_cuda_stream (initial_statics ()) GPUBackend"
    by (simp add: scenario_def initial_statics_def)
  have m: "backend (scenario MixedBackend) = MixedBackend
         \<and> 0 = shared_cuda_stream (initial_statics ()) MixedBackend"
    by (simp add: scenario_def initial_statics_def)
  have 1: "fst (Run (initial_statics ()) CPUBackend CPUBackend [0] [] (scenario CPUBackend)) = Inr [3]"
    by code_simp
  have 2: "fst (Run (initial_statics ()) GPUBackend GPUBackend [0] [] (scenario GPUBackend)) = Inr [2]"
    by code_simp
  have 3: "fst (Run (initial_statics ()) CPUBackend GPUBackend [0] [] (scenario MixedBackend)) = Inr [2]"
    by code_simp
  from Run_default_path_eq_explicit [where s = "scenario CPUBackend" and g = "initial_statics ()"
         and inputs = "[0]" and kwargs = "[]"] c
       Run_default_path_eq_explicit [where s = "scenario GPUBackend" and g = "initial_statics ()"
         and inputs = "[0]" and kwargs = "[]"] g
       Run_default_path_eq_explicit [where s = "scenario MixedBackend" and g = "initial_statics ()"
         and inputs = "[0]" and kwargs = "[]"] m
       1 2 3
  show ?thesis by blast
qed

subsection \<open>Static defaults\<close>

text \<open>
  Claim C10.  The default worker pool and the default compute stream exist once per
  instantiation of the engine class.  \<open>SetThreadPool\<close> and \<open>SetCudaStream\<close> called through
  the class for backend \<open>B\<close> install the new default of \<open>B\<close> and leave the defaults of every
  other backend \<open>B'\<close> as they were, so a call of the overload without a binding on an
  engine of class \<open>B'\<close> gives the same result before and after.
\<close>

theorem setters_change_own_backend_only:
  assumes "B' \<noteq> B"
  shows "shared_thread_pool (SetThreadPool B n dev aff g) B =
           \<lparr>num_threads = n, device_id = dev, set_affinity = aff\<rparr>
       \<and> shared_thread_pool (SetThreadPool B n dev aff g) B' = shared_thread_pool g B'
       \<and> shared_cuda_stream (SetThreadPool B n dev aff g) = shared_cuda_stream g
       \<and> shared_cuda_stream (SetCudaStream host Get B dev g) B' = shared_cuda_stream g B'
       \<and> shared_thread_pool (SetCudaStream host Get B dev g) = shared_thread_pool g
       \<and> (dev \<noteq> host \<longrightarrow>
            shared_cuda_stream (SetCudaStream host Get B dev g) B = fst (Get (stream_pool g) dev))
       \<and> (backend s = B' \<longrightarrow>
            Run (SetThreadPool B n dev aff g) InBackend OutBackend inputs kwargs s =
              Run g InBackend OutBackend inputs kwargs s
          \<and> Run (SetCudaStream host Get B dev g) InBackend OutBackend inputs kwargs s =
              Run g InBackend OutBackend inputs kwargs s)"
  using assms
  by (auto simp: SetThreadPool_def SetCudaStream_def Run_def Let_def split: prod.splits)

theorem setters_change_own_backend_only_witness:
  "GPUBackend \<noteq> CPUBackend
   \<and> shared_thread_pool (SetThreadPool CPUBackend 4 0 True (initial_statics (0::nat))) CPUBackend =
       \<lparr>num_threads = 4, device_id = 0, set_affinity = True\<rparr>
   \<and> shared_thread_pool (SetThreadPool CPUBackend 4 0 True (initial_statics (0::nat))) GPUBackend =
       \<lparr>num_threads = 1, device_id = 0, set_affinity = False\<rparr>
   \<and> shared_cuda_stream (SetCudaStream (- 1) (\<lambda>pool dev. (pool + 7, pool + 1)) CPUBackend 0
        (initial_statics (0::nat))) CPUBackend = 7
   \<and> shared_cuda_stream (SetCudaStream (- 1) (\<lambda>pool dev. (pool + 7, pool + 1)) CPUBackend 0
        (initial_statics (0::nat))) GPUBackend = 0
   \<and> Run (SetThreadPool CPUBackend 4 0 True (initial_statics (0::nat))) GPUBackend GPUBackend [0] []
        (scenario GPUBackend) =
      Run (initial_statics (0::nat)) GPUBackend GPUBackend [0] [] (scenario GPUBackend)
   \<and> Run (SetCudaStream (- 1) (\<lambda>pool dev. (pool + 7, pool + 1)) CPUBackend 0
        (initial_statics (0::nat))) GPUBackend GPUBackend [0] [] (scenario GPUBackend) =
      Run (initial_statics (0::nat)) GPUBackend GPUBackend [0] [] (scenario GPUBackend)"
proof -
  have b: "backend (scenario GPUBackend) = GPUBackend" by (simp add: scenario_def)
  have i: "shared_thread_pool (initial_statics (0::nat)) GPUBackend =
             \<lparr>num_threads = 1, device_id = 0, set_affinity = False\<rparr>
         \<and> shared_cuda_stream (initial_statics (0::nat)) GPUBackend = 0
         \<and> stream_pool (initial_statics (0::nat)) = 0"
    by (simp add: initial_statics_def)
  from setters_change_own_backend_only [where B' = GPUBackend and B = CPUBackend and n = 4
         and dev = 0 and aff = True and g = "initial_statics (0::nat)" and host = "- 1"
         and Get = "\<lambda>pool dev. (pool + 7, pool + 1)" and s = "scenario GPUBackend"
         and InBackend = GPUBackend and OutBackend = GPUBackend and inputs = "[0]"
         and kwargs = "[]"] b i
  show ?thesis by simp
qed

subsection \<open>Workspace assembly\<close>

text \<open>
  Claim C4.  Take a call whose workspace has been cleared and in which the inputs, the
  argument inputs and the output slots have been placed in the workspace without error,
  and take any input \<open>i\<close>, a live dense batch \<open>src\<close>.  Then the workspace holds one
  wrapped input per input batch, and the wrapper of input \<open>i\<close> is a view of \<open>src\<close> (same
  shapes and element type, no storage other than that of \<open>src\<close>) whose layout tag is: the
  tag of \<open>src\<close>, unchanged, if \<open>src\<close> has a non-empty tag; and otherwise the layout the
  schema returns for input index \<open>i\<close> and the sample rank of \<open>src\<close>, which is the empty
  layout exactly when the schema returns no default.
\<close>

theorem default_layout_of_inputs:
  assumes pop: "populate WSInputType WSOutputType inputs kwargs s = (Inr (), s0)"
    and clear: "ws_inputs (ws s) = []"
    and i: "i < length inputs"
    and src: "deref (mem s) (inputs ! i) = Some (Dense src)"
  shows "\<exists>b. length (ws_inputs (ws s0)) = length inputs
           \<and> deref (mem s0) (ws_inputs (ws s0) ! i) = Some b
           \<and> shape b = tl_shape src \<and> dtype b = tl_type src
           \<and> storage b \<subseteq> storage (Dense src)
           \<and> (tl_layout src \<noteq> [] \<longrightarrow> GetLayout b = tl_layout src)
           \<and> (tl_layout src = [] \<longrightarrow>
                GetInputLayout (GetSchema (op_spec s)) i (sample_dim (tl_shape src)) []
                  = Inr (GetLayout b))"
proof -
  let ?k = "length (objs (mem s))"
  from populate_Inr [OF pop] obtain bs where
    len: "length bs = length inputs"
    and wi: "ws_inputs (ws s0) = ws_inputs (ws s) @ [?k..<?k + length inputs]"
    and ob: "objs (mem s0) = objs (mem s) @ bs @
               replicate (num_outputs s) (sized_batch WSOutputType (batch_size s))"
    and lay: "\<forall>i<length inputs. \<forall>src. deref (mem s) (inputs ! i) = Some (Dense src) \<longrightarrow>
               input_layout_default (GetSchema (op_spec s)) i
                 (ShareData (empty_batch WSInputType) src) = Inr (bs ! i)"
    by (elim exE conjE) simp
  from wi clear i have p: "ws_inputs (ws s0) ! i = ?k + i" and n: "length (ws_inputs (ws s0)) = length inputs"
    by simp_all
  have d: "deref (mem s0) (?k + i) = Some (bs ! i)"
    using ob len i by (simp add: deref_def nth_append)
  from lay i src have
    "input_layout_default (GetSchema (op_spec s)) i (ShareData (empty_batch WSInputType) src)
       = Inr (bs ! i)"
    by blast
  from input_layout_default_Inr [OF this] n p d show ?thesis by simp
qed

theorem default_layout_of_inputs_witness:
  "fst (populate TensorVector_t TensorVector_t [0] [] (scenario CPUBackend)) = Inr ()
   \<and> (\<exists>b. deref (mem (snd (populate TensorVector_t TensorVector_t [0] [] (scenario CPUBackend))))
              (ws_inputs (ws (snd (populate TensorVector_t TensorVector_t [0] []
                 (scenario CPUBackend)))) ! 0) = Some b
          \<and> GetLayout b = ''X'')
   \<and> fst (populate TensorList_t TensorList_t [0] []
             ((scenario GPUBackend)\<lparr>mem := tagged_heap\<rparr>)) = Inr ()
   \<and> (\<exists>b. deref (mem (snd (populate TensorList_t TensorList_t [0] []
                 ((scenario GPUBackend)\<lparr>mem := tagged_heap\<rparr>))))
              (ws_inputs (ws (snd (populate TensorList_t TensorList_t [0] []
                 ((scenario GPUBackend)\<lparr>mem := tagged_heap\<rparr>)))) ! 0) = Some b
          \<and> GetLayout b = ''N'')"
proof -
  let ?s = "scenario CPUBackend"
  let ?t = "(scenario GPUBackend)\<lparr>mem := tagged_heap\<rparr>"
  let ?src = "\<lparr>tl_buf = Some 0, tl_shape = [[1], [1], [1], [1]], tl_type = 4, tl_layout = []\<rparr>"
  let ?tag = "\<lparr>tl_buf = Some 0, tl_shape = [[1], [1], [1], [1]], tl_type = 4, tl_layout = ''N''\<rparr>"
  have f1: "fst (populate TensorVector_t TensorVector_t [0] [] ?s) = Inr ()"
    by code_simp
  have f2: "fst (populate TensorList_t TensorList_t [0] [] ?t) = Inr ()"
    by code_simp
  have p1: "populate TensorVector_t TensorVector_t [0] [] ?s =
              (Inr (), snd (populate TensorVector_t TensorVector_t [0] [] ?s))"
    using f1 by (simp add: prod_eq_iff)
  have p2: "populate TensorList_t TensorList_t [0] [] ?t =
              (Inr (), snd (populate TensorList_t TensorList_t [0] [] ?t))"
    using f2 by (simp add: prod_eq_iff)
  have c1: "ws_inputs (ws ?s) = []" and c2: "ws_inputs (ws ?t) = []"
    by (simp_all add: scenario_def empty_workspace_def)
  have d1: "deref (mem ?s) ([0] ! 0) = Some (Dense ?src)"
    by (simp add: scenario_def scenario_heap_def deref_def)
  have d2: "deref (mem ?t) ([0] ! 0) = Some (Dense ?tag)"
    by (simp add: tagged_heap_def deref_def)
  have g: "GetInputLayout (GetSchema (op_spec ?s)) 0 (sample_dim (tl_shape ?src)) [] = Inr ''X''"
    by (simp add: scenario_def increment_spec_def sample_dim_def)
  from default_layout_of_inputs [OF p1 c1 _ d1] g
  have 1: "\<exists>b. deref (mem (snd (populate TensorVector_t TensorVector_t [0] [] ?s)))
                 (ws_inputs (ws (snd (populate TensorVector_t TensorVector_t [0] [] ?s))) ! 0) = Some b
             \<and> GetLayout b = ''X''"
    by auto
  from default_layout_of_inputs [OF p2 c2 _ d2]
  have 2: "\<exists>b. deref (mem (snd (populate TensorList_t TensorList_t [0] [] ?t)))
                 (ws_inputs (ws (snd (populate TensorList_t TensorList_t [0] [] ?t))) ! 0) = Some b
             \<and> GetLayout b = ''N''"
    by auto
  from f1 f2 1 2 show ?thesis by blast
qed

subsection \<open>Shape inference and output materialisation\<close>




text \<open>
  Claim C9.  The resize loop reads \<^verbatim>\<open>output_desc[i]\<close> for every \<open>i\<close> below the declared
  output count, unchecked.  If the operator's \<open>Setup\<close>, whenever it returns \<open>true\<close>,
  leaves at least as many descriptors as there are declared outputs, then no call of any
  \<open>Run\<close> overload ever reads past the end of the descriptors: the failure
  \<open>OutputDesc_index\<close> is unreachable.
\<close>

theorem output_desc_reads_in_bounds:
  assumes "\<forall>st w m ds st'. op_Setup (op s) st w m = (Inr (True, ds), st')
             \<longrightarrow> num_outputs s \<le> length ds"
  shows "\<not> out_of_bounds (fst (Run g InBackend OutBackend inputs kwargs s))
       \<and> \<not> out_of_bounds (fst (Run_ThreadPool InBackend OutBackend inputs kwargs thread_pool s))
       \<and> \<not> out_of_bounds (fst (Run_cudaStream InBackend OutBackend inputs kwargs cuda_stream s))"
proof -
  have c: "op_Setup (op s) st w m = (Inr (True, ds), st') \<Longrightarrow> num_outputs s \<le> length ds"
    for st w m ds st'
    using assms by blast
  have tp: "\<not> out_of_bounds (fst (Run_ThreadPool I O' inputs kwargs tp s))" for I O' tp
    unfolding Run_ThreadPool_def
    by (auto intro!: RunImpl_in_bounds
        simp: ws_SetThreadPool_def ws_Clear_def record_call_def dest: c)
  have cs: "\<not> out_of_bounds (fst (Run_cudaStream I O' inputs kwargs stream s))" for I O' stream
    unfolding Run_cudaStream_def
    by (auto intro!: Run_synchronized_in_bounds dest: c)
  have "\<not> out_of_bounds (fst (Run g InBackend OutBackend inputs kwargs s))"
    unfolding Run_def using tp cs by simp
  with tp cs show ?thesis by blast
qed

theorem output_desc_reads_in_bounds_witness:
  "\<not> out_of_bounds (fst (Run (initial_statics ()) GPUBackend GPUBackend [0] [] (scenario GPUBackend)))
   \<and> fst (Run (initial_statics ()) GPUBackend GPUBackend [0] [] (scenario GPUBackend)) = Inr [2]
   \<and> \<not> out_of_bounds (fst (Run_ThreadPool CPUBackend CPUBackend [0] [] None (scenario CPUBackend)))
   \<and> fst (Run_ThreadPool CPUBackend CPUBackend [0] [] None (scenario CPUBackend)) = Inr [3]
   \<and> \<not> out_of_bounds (fst (Run_cudaStream CPUBackend GPUBackend [0] [] 5 (scenario MixedBackend)))
   \<and> fst (Run_cudaStream CPUBackend GPUBackend [0] [] 5 (scenario MixedBackend)) = Inr [2]"
proof -
  have c: "\<forall>st w m ds st'. op_Setup (op (scenario B)) st w m = (Inr (True, ds), st')
             \<longrightarrow> num_outputs (scenario B) \<le> length ds" for B
    by (auto simp: scenario_def increment_def increment_Setup_def
        split: list.splits option.splits)
  have 1: "fst (Run (initial_statics ()) GPUBackend GPUBackend [0] [] (scenario GPUBackend)) = Inr [2]"
    by code_simp
  have 2: "fst (Run_ThreadPool CPUBackend CPUBackend [0] [] None (scenario CPUBackend)) = Inr [3]"
    by code_simp
  have 3: "fst (Run_cudaStream CPUBackend GPUBackend [0] [] 5 (scenario MixedBackend)) = Inr [2]"
    by code_simp
  from output_desc_reads_in_bounds [OF c [of GPUBackend], where g = "initial_statics ()"
        and InBackend = GPUBackend and OutBackend = GPUBackend and inputs = "[0]" and kwargs = "[]"]
       output_desc_reads_in_bounds [OF c [of CPUBackend], where InBackend = CPUBackend
        and OutBackend = CPUBackend and inputs = "[0]" and kwargs = "[]" and thread_pool = None]
       output_desc_reads_in_bounds [OF c [of MixedBackend], where InBackend = CPUBackend
        and OutBackend = GPUBackend and inputs = "[0]" and kwargs = "[]" and cuda_stream = 5]
       1 2 3
  show ?thesis by blast
qed

text \<open>
  Without that precondition the unchecked read is reached: for an operator whose
  \<open>Setup\<close> returns \<open>true\<close> and no descriptor, the first iteration of the loop reads past
  the end.
\<close>

lemma unchecked_read_reached:
  "fst (Run_cudaStream GPUBackend GPUBackend [0] [] 0 ((scenario GPUBackend)\<lparr>op := careless\<rparr>))
     = Inl (OutputDesc_index 0)"
  by code_simp

subsection \<open>The outputs of a call\<close>

text \<open>
  Claim C1.  Whenever one of the three \<open>Run\<close> overloads completes without error (which
  happens on the three supported instantiations only), it returns exactly as many
  batches as the engine has declared outputs, a number that the call does not change and
  that the constructor took from the schema.  The batches come in declaration order:
  on the accelerator and staged paths element \<open>i\<close> of the result is the handle of output
  \<open>i\<close> of the workspace itself; on the host path element \<open>i\<close> is a dense batch with the
  shapes, the element type and the sample values of output \<open>i\<close> of the workspace.
\<close>

theorem Run_returns_declared_outputs:
  assumes "Run g InBackend OutBackend inputs kwargs (s :: 's machine) = (Inr outputs, s')
         \<or> Run_ThreadPool InBackend OutBackend inputs kwargs thread_pool s = (Inr outputs, s')
         \<or> Run_cudaStream InBackend OutBackend inputs kwargs cuda_stream s = (Inr outputs, s')"
  shows "length outputs = num_outputs s \<and> num_outputs s' = num_outputs s
       \<and> num_outputs s \<le> length (ws_outputs (ws s'))
       \<and> (\<forall>i<num_outputs s.
            if OutBackend = CPUBackend then
              \<exists>src dst. deref (mem s') (ws_outputs (ws s') ! i) = Some (PerSample src)
                \<and> deref (mem s') (outputs ! i) = Some (Dense dst)
                \<and> tl_shape dst = map t_shape (tv_tensors src) \<and> tl_type dst = tv_type src
                \<and> samples (mem s') (Dense dst) = samples (mem s') (PerSample src)
            else outputs ! i = ws_outputs (ws s') ! i)
       \<and> (\<forall>B InstantiateOperator spec d.
            DirectOperator_new B InstantiateOperator spec = Inr (d :: 's DirectOperator)
              \<longrightarrow> num_outputs d = NumOutput (GetSchema spec))"
proof -
  let ?goal = "\<lambda>s'. length outputs = num_outputs s \<and> num_outputs s' = num_outputs s
       \<and> num_outputs s \<le> length (ws_outputs (ws s'))
       \<and> (\<forall>i<num_outputs s.
            if OutBackend = CPUBackend then
              \<exists>src dst. deref (mem s') (ws_outputs (ws s') ! i) = Some (PerSample src)
                \<and> deref (mem s') (outputs ! i) = Some (Dense dst)
                \<and> tl_shape dst = map t_shape (tv_tensors src) \<and> tl_type dst = tv_type src
                \<and> samples (mem s') (Dense dst) = samples (mem s') (PerSample src)
            else outputs ! i = ws_outputs (ws s') ! i)"
  have tp: "?goal s'" if "Run_ThreadPool I OutBackend inputs kwargs tp s = (Inr outputs, s')" for I tp
  proof -
    from Run_ThreadPool_Inr [OF that] obtain t WSI where
      o: "OutBackend = CPUBackend" and n: "num_outputs t = num_outputs s"
      and r: "RunImpl WSI TensorVector_t inputs kwargs t = (Inr outputs, s')"
      by blast
    from RunImpl_outputs [OF r] n have
      1: "length outputs = num_outputs s" "num_outputs s' = num_outputs s"
         "num_outputs s \<le> length (ws_outputs (ws s'))"
      and dc: "\<forall>i<num_outputs s. dense_copy (mem s') (outputs ! i) (ws_outputs (ws s') ! i)"
      by simp_all
    have "\<forall>i<num_outputs s. \<exists>src dst.
              deref (mem s') (ws_outputs (ws s') ! i) = Some (PerSample src)
            \<and> deref (mem s') (outputs ! i) = Some (Dense dst)
            \<and> tl_shape dst = map t_shape (tv_tensors src) \<and> tl_type dst = tv_type src
            \<and> samples (mem s') (Dense dst) = samples (mem s') (PerSample src)"
      by (intro allI impI dense_copy_result) (simp add: dc)
    with 1 o show ?thesis by simp
  qed
  have cs: "?goal s'" if "Run_cudaStream I OutBackend inputs kwargs stream s = (Inr outputs, s')" for I stream
  proof -
    from Run_cudaStream_Inr [OF that] obtain t :: "'s machine" and u WSI where
      o: "OutBackend = GPUBackend" and n: "num_outputs t = num_outputs s"
      and r: "RunImpl WSI TensorList_t inputs kwargs t = (Inr outputs, u)"
      and e: "ws s' = ws u" "mem s' = mem u" "num_outputs s' = num_outputs u"
      by blast
    from RunImpl_outputs [OF r] n o e show ?thesis by simp
  qed
  have df: "?goal s'" if "Run g InBackend OutBackend inputs kwargs s = (Inr outputs, s')"
    using that tp cs by (auto simp: Run_def split: if_splits)
  have ctor: "\<forall>B InstantiateOperator spec d.
            DirectOperator_new B InstantiateOperator spec = Inr (d :: 's DirectOperator)
              \<longrightarrow> num_outputs d = NumOutput (GetSchema spec)"
    by (auto simp: DirectOperator_new_def split: sum.splits)
  from assms tp cs df have "?goal s'" by blast
  with ctor show ?thesis by blast
qed

theorem Run_returns_declared_outputs_witness:
  "(let r = Run (initial_statics ()) CPUBackend CPUBackend [0] [] (scenario CPUBackend)
    in fst r = Inr [3] \<and> length [3 :: nat] = num_outputs (scenario CPUBackend)
       \<and> (\<exists>src dst. deref (mem (snd r)) (ws_outputs (ws (snd r)) ! 0) = Some (PerSample src)
             \<and> deref (mem (snd r)) ([3] ! 0) = Some (Dense dst)
             \<and> tl_shape dst = map t_shape (tv_tensors src)
             \<and> samples (mem (snd r)) (Dense dst) = samples (mem (snd r)) (PerSample src)))
 \<and> (let r = Run_cudaStream GPUBackend GPUBackend [0] [] 0 (scenario GPUBackend)
    in fst r = Inr [2] \<and> length [2 :: nat] = num_outputs (scenario GPUBackend)
       \<and> [2] ! 0 = ws_outputs (ws (snd r)) ! 0)
 \<and> (let r = Run (initial_statics ()) CPUBackend GPUBackend [0] [] (scenario MixedBackend)
    in fst r = Inr [2] \<and> length [2 :: nat] = num_outputs (scenario MixedBackend)
       \<and> [2] ! 0 = ws_outputs (ws (snd r)) ! 0)"
proof -
  let ?c = "Run (initial_statics ()) CPUBackend CPUBackend [0] [] (scenario CPUBackend)"
  let ?g = "Run_cudaStream GPUBackend GPUBackend [0] [] 0 (scenario GPUBackend)"
  let ?m = "Run (initial_statics ()) CPUBackend GPUBackend [0] [] (scenario MixedBackend)"
  have n: "num_outputs (scenario B) = 1" for B by (simp add: scenario_def)
  have fc: "fst ?c = Inr [3]" by code_simp
  have fg: "fst ?g = Inr [2]" by code_simp
  have fm: "fst ?m = Inr [2]" by code_simp
  have c: "?c = (Inr [3], snd ?c)" using fc by (simp add: prod_eq_iff)
  have g: "?g = (Inr [2], snd ?g)" using fg by (simp add: prod_eq_iff)
  have m: "?m = (Inr [2], snd ?m)" using fm by (simp add: prod_eq_iff)
  from Run_returns_declared_outputs [where g = "initial_statics ()", OF disjI1, OF c]
  have 1: "length [3 :: nat] = num_outputs (scenario CPUBackend)
       \<and> (\<exists>src dst. deref (mem (snd ?c)) (ws_outputs (ws (snd ?c)) ! 0) = Some (PerSample src)
             \<and> deref (mem (snd ?c)) ([3] ! 0) = Some (Dense dst)
             \<and> tl_shape dst = map t_shape (tv_tensors src)
             \<and> samples (mem (snd ?c)) (Dense dst) = samples (mem (snd ?c)) (PerSample src))"
    by (simp add: n) blast
  from Run_returns_declared_outputs [where g = "initial_statics ()", OF disjI2, OF disjI2, OF g]
  have 2: "length [2 :: nat] = num_outputs (scenario GPUBackend)
       \<and> [2] ! 0 = ws_outputs (ws (snd ?g)) ! 0"
    by (simp add: n)
  from Run_returns_declared_outputs [where g = "initial_statics ()", OF disjI1, OF m]
  have 3: "length [2 :: nat] = num_outputs (scenario MixedBackend)
       \<and> [2] ! 0 = ws_outputs (ws (snd ?m)) ! 0"
    by (simp add: n)
  from fc fg fm 1 2 3 show ?thesis unfolding Let_def by blast
qed

text \<open>The scenario of the specification: the batch \<open>{1, 2, 3, 4}\<close> becomes \<open>{2, 3, 4, 5}\<close>.\<close>

lemma increment_scenario:
  "(let r = Run (initial_statics ()) CPUBackend CPUBackend [0] [] (scenario CPUBackend)
    in fst r = Inr [3]
       \<and> map_option (samples (mem (snd r))) (deref (mem (snd r)) 3) = Some [[2], [3], [4], [5]])"
  by code_simp

subsection \<open>Stream synchronisation\<close>

text \<open>
  Claim C8, amended.  An accelerator or staged \<open>Run\<close> call that completes without error,
  with an explicit stream or with the default stream of its class, makes exactly two
  stream synchronisations, both on its stream: the first after the workspace has been
  cleared and bound to the stream and before any input is added to it, the second after
  the operator's \<open>Run\<close>, as the last call before the outputs are returned.  A call that
  fails makes at most two.  The host path makes none, whatever the outcome.
\<close>

theorem stream_synchronization_bracket:
  "(Run_cudaStream InBackend OutBackend inputs kwargs cuda_stream s = (Inr outputs, s') \<longrightarrow>
       bracketed cuda_stream inputs kwargs s s'
     \<and> syncs (drop (length (calls s)) (calls s')) = [cuda_stream, cuda_stream])
 \<and> (Run g InBackend OutBackend inputs kwargs s = (Inr outputs, s') \<and> backend s \<noteq> CPUBackend \<longrightarrow>
       bracketed (shared_cuda_stream g (backend s)) inputs kwargs s s'
     \<and> syncs (drop (length (calls s)) (calls s')) =
         [shared_cuda_stream g (backend s), shared_cuda_stream g (backend s)])
 \<and> (Run_ThreadPool InBackend OutBackend inputs kwargs thread_pool s = (r, s') \<longrightarrow>
       (\<exists>new. calls s' = calls s @ new \<and> syncs new = []))
 \<and> (Run g InBackend OutBackend inputs kwargs s = (r, s') \<and> backend s = CPUBackend \<longrightarrow>
       (\<exists>new. calls s' = calls s @ new \<and> syncs new = []))
 \<and> (Run_cudaStream InBackend OutBackend inputs kwargs cuda_stream s = (r, s')
      \<or> Run g InBackend OutBackend inputs kwargs s = (r, s') \<longrightarrow>
       (\<exists>new. calls s' = calls s @ new \<and> length (syncs new) \<le> 2))"
proof -
  have ok: "bracketed stream inputs kwargs s s'
          \<and> syncs (drop (length (calls s)) (calls s')) = [stream, stream]"
    if "Run_cudaStream I O' inputs kwargs stream s = (Inr outputs, s')" for I O' stream
  proof -
    from that obtain WSI WSO where
      "Run_synchronized WSI WSO inputs kwargs stream s = (Inr outputs, s')"
      by (auto simp: Run_cudaStream_def split: if_splits)
    then have "bracketed stream inputs kwargs s s'" by (rule Run_synchronized_bracketed)
    with bracketed_syncs [OF this] show ?thesis by simp
  qed
  have host: "\<exists>new. calls s' = calls s @ new \<and> syncs new = []"
    if "Run_ThreadPool I O' inputs kwargs tp s = (r, s')" for I O' tp
    using that by (rule Run_ThreadPool_syncs)
  have any: "\<exists>new. calls s' = calls s @ new \<and> length (syncs new) \<le> 2"
    if "Run_cudaStream I O' inputs kwargs stream s = (r, s')" for I O' stream
  proof (cases "\<exists>WSI WSO. Run_synchronized WSI WSO inputs kwargs stream s = (r, s')")
    case True
    then obtain WSI WSO where "Run_synchronized WSI WSO inputs kwargs stream s = (r, s')"
      by blast
    from Run_synchronized_syncs [OF this] show ?thesis by auto
  next
    case False
    with that have "s' = s" by (auto simp: Run_cudaStream_def split: if_splits)
    then show ?thesis by simp
  qed
  have 2: "bracketed (shared_cuda_stream g (backend s)) inputs kwargs s s'
     \<and> syncs (drop (length (calls s)) (calls s')) =
         [shared_cuda_stream g (backend s), shared_cuda_stream g (backend s)]"
    if "Run g InBackend OutBackend inputs kwargs s = (Inr outputs, s')" "backend s \<noteq> CPUBackend"
    using that ok by (auto simp: Run_def split: if_splits)
  have 4: "\<exists>new. calls s' = calls s @ new \<and> syncs new = []"
    if "Run g InBackend OutBackend inputs kwargs s = (r, s')" "backend s = CPUBackend"
    using that host by (auto simp: Run_def split: if_splits)
  have 5: "\<exists>new. calls s' = calls s @ new \<and> length (syncs new) \<le> 2"
    if "Run g InBackend OutBackend inputs kwargs s = (r, s')"
  proof (cases "backend s = CPUBackend")
    case True
    from 4 [OF that True] show ?thesis by auto
  next
    case False
    with that have "Run_cudaStream InBackend OutBackend inputs kwargs
        (shared_cuda_stream g (backend s)) s = (r, s') \<or> s' = s"
      by (auto simp: Run_def split: if_splits)
    with any show ?thesis by auto
  qed
  from ok host any 2 4 5 show ?thesis by blast
qed

theorem stream_synchronization_bracket_witness:
  "(let r = Run_cudaStream GPUBackend GPUBackend [0] [] 7 (scenario GPUBackend)
    in fst r = Inr [2] \<and> bracketed 7 [0] [] (scenario GPUBackend) (snd r)
       \<and> syncs (drop (length (calls (scenario GPUBackend))) (calls (snd r))) = [7, 7])
 \<and> (let r = Run (initial_statics ()) CPUBackend GPUBackend [0] [] (scenario MixedBackend)
    in fst r = Inr [2] \<and> bracketed 0 [0] [] (scenario MixedBackend) (snd r)
       \<and> syncs (drop (length (calls (scenario MixedBackend))) (calls (snd r))) = [0, 0])
 \<and> (let r = Run_ThreadPool CPUBackend CPUBackend [0] [] None (scenario CPUBackend)
    in fst r = Inr [3]
       \<and> (\<exists>new. calls (snd r) = calls (scenario CPUBackend) @ new \<and> syncs new = []))"
proof -
  let ?g = "Run_cudaStream GPUBackend GPUBackend [0] [] 7 (scenario GPUBackend)"
  let ?m = "Run (initial_statics ()) CPUBackend GPUBackend [0] [] (scenario MixedBackend)"
  let ?c = "Run_ThreadPool CPUBackend CPUBackend [0] [] None (scenario CPUBackend)"
  have fg: "fst ?g = Inr [2]" by code_simp
  have fm: "fst ?m = Inr [2]" by code_simp
  have fc: "fst ?c = Inr [3]" by code_simp
  have g: "?g = (Inr [2], snd ?g)" using fg by (simp add: prod_eq_iff)
  have m: "?m = (Inr [2], snd ?m)" using fm by (simp add: prod_eq_iff)
  have c: "?c = (Inr [3], snd ?c)" using fc by (simp add: prod_eq_iff)
  have b: "backend (scenario MixedBackend) \<noteq> CPUBackend"
    "shared_cuda_stream (initial_statics ()) (backend (scenario MixedBackend)) = 0"
    by (simp_all add: scenario_def initial_statics_def)
  from stream_synchronization_bracket [where s = "scenario GPUBackend" and InBackend = GPUBackend
      and OutBackend = GPUBackend and inputs = "[0]" and kwargs = "[]" and cuda_stream = 7
      and outputs = "[2]" and s' = "snd ?g"] g
  have 1: "bracketed 7 [0] [] (scenario GPUBackend) (snd ?g)
       \<and> syncs (drop (length (calls (scenario GPUBackend))) (calls (snd ?g))) = [7, 7]"
    by blast
  from stream_synchronization_bracket [where s = "scenario MixedBackend" and InBackend = CPUBackend
      and OutBackend = GPUBackend and inputs = "[0]" and kwargs = "[]" and g = "initial_statics ()"
      and outputs = "[2]" and s' = "snd ?m"] m b
  have 2: "bracketed 0 [0] [] (scenario MixedBackend) (snd ?m)
       \<and> syncs (drop (length (calls (scenario MixedBackend))) (calls (snd ?m))) = [0, 0]"
    by simp
  from stream_synchronization_bracket [where s = "scenario CPUBackend" and InBackend = CPUBackend
      and OutBackend = CPUBackend and inputs = "[0]" and kwargs = "[]" and thread_pool = None
      and r = "Inr [3]" and s' = "snd ?c"] c
  have 3: "\<exists>new. calls (snd ?c) = calls (scenario CPUBackend) @ new \<and> syncs new = []"
    by blast
  from fg fm fc 1 2 3 show ?thesis unfolding Let_def by blast
qed

text \<open>
  As stated for every call, the claim fails: when the operator raises an exception (here
  in \<open>Setup\<close>, called without input), or when the first synchronisation reports a device
  fault, the call has synchronised the stream once, not twice.
\<close>

theorem failed_call_synchronizes_once_counterexample:
  "(let r = Run_cudaStream GPUBackend GPUBackend [] [] 7 (scenario GPUBackend)
    in fst r = Inl (Thrown ''one input expected'')
       \<and> calls (snd r) = [Call_Clear, Call_set_stream 7, Call_cudaStreamSynchronize 7,
                           Call_AddOutput 1, Call_SetBatchSizes 4, Call_Setup]
       \<and> syncs (drop (length (calls (scenario GPUBackend))) (calls (snd r))) = [7])
 \<and> (let r = Run_cudaStream CPUBackend GPUBackend [0] [] 7
              ((scenario MixedBackend)\<lparr>cuda_results := [700]\<rparr>)
    in fst r = Inl (CUDA_CALL_failed 700)
       \<and> calls (snd r) = [Call_Clear, Call_set_stream 7, Call_cudaStreamSynchronize 7]
       \<and> syncs (drop (length (calls (scenario MixedBackend))) (calls (snd r))) = [7])"
  by code_simp

end
